theory Spec2Isabelle
  imports Main "HOL-Library.Word"
begin

section \<open>JavaScript values used by the controllers\<close>

text \<open>
  Strings are lists of code units below 256; a \<open>Buffer\<close> is a list of bytes. A JavaScript
  number that the version logic handles is either \<open>NaN\<close> or an integer; the model is exact
  for magnitudes up to \<open>2^53\<close>, where a double holds every integer. From there on the
  program rounds to the nearest double and the model keeps the integer, so a numeral of
  that size (the selector \<open>9999999999999999999999\<close>, which the program reads as \<open>1e22\<close>)
  is outside what the model says about the program.
\<close>

type_synonym buffer = "8 word list"

datatype jsnum = NaN | Number int

text \<open>\<open>a === b\<close> on numbers: \<open>NaN\<close> equals nothing, itself included.\<close>

fun strictEq :: "jsnum \<Rightarrow> jsnum \<Rightarrow> bool" where
  "strictEq (Number a) (Number b) = (a = b)"
| "strictEq _ _ = False"

fun jsMinus :: "jsnum \<Rightarrow> jsnum \<Rightarrow> jsnum" where
  "jsMinus (Number a) (Number b) = Number (a - b)"
| "jsMinus _ _ = NaN"

fun jsTimes :: "jsnum \<Rightarrow> jsnum \<Rightarrow> jsnum" where
  "jsTimes (Number a) (Number b) = Number (a * b)"
| "jsTimes _ _ = NaN"

text \<open>Truthiness of an optional string field: \<open>undefined\<close> and \<open>""\<close> are falsy.\<close>

fun truthy :: "string option \<Rightarrow> bool" where
  "truthy None = False"
| "truthy (Some s) = (s \<noteq> [])"

definition isStrWhiteSpace :: "char \<Rightarrow> bool" where
  "isStrWhiteSpace c \<longleftrightarrow>
     (let n = (of_char c :: nat) in (9 \<le> n \<and> n \<le> 13) \<or> n = 32 \<or> n = 160)"


text \<open>The value of a character as a digit of the given radix (10 or 16).\<close>

definition digitOf :: "nat \<Rightarrow> char \<Rightarrow> nat option" where
  "digitOf radix c =
     (let n = (of_char c :: nat) in
      if 48 \<le> n \<and> n \<le> 57 then Some (n - 48)
      else if radix = 16 \<and> 97 \<le> n \<and> n \<le> 102 then Some (n - 87)
      else if radix = 16 \<and> 65 \<le> n \<and> n \<le> 70 then Some (n - 55)
      else None)"

fun leadingDigits :: "nat \<Rightarrow> string \<Rightarrow> nat list" where
  "leadingDigits radix [] = []"
| "leadingDigits radix (c # cs) =
     (case digitOf radix c of None \<Rightarrow> [] | Some d \<Rightarrow> d # leadingDigits radix cs)"

definition digitsValue :: "nat \<Rightarrow> nat list \<Rightarrow> nat" where
  "digitsValue radix ds = foldl (\<lambda>acc d. acc * radix + d) 0 ds"

definition stripSign :: "string \<Rightarrow> int \<times> string" where
  "stripSign s =
     (case s of
        [] \<Rightarrow> (1, [])
      | c # r \<Rightarrow> if c = CHR ''-'' then (- 1, r) else if c = CHR ''+'' then (1, r) else (1, s))"

definition stripPrefix :: "string \<Rightarrow> nat \<times> string" where
  "stripPrefix s =
     (case s of
        a # b # r \<Rightarrow>
          if a = CHR ''0'' \<and> (b = CHR ''x'' \<or> b = CHR ''X'') then (16, r) else (10, s)
      | _ \<Rightarrow> (10, s))"

text \<open>
  \<open>parseInt(string)\<close> with no radix argument: leading white space is skipped, a sign is
  read, a \<open>0x\<close> prefix selects radix 16, and the longest run of digits is the value;
  whatever follows the digits is ignored, and no digit at all gives \<open>NaN\<close>.
\<close>

definition parseInt :: "string \<Rightarrow> jsnum" where
  "parseInt s =
     (let (sign, s2) = stripSign (dropWhile isStrWhiteSpace s);
          (radix, s3) = stripPrefix s2;
          ds = leadingDigits radix s3
      in if ds = [] then NaN else Number (sign * int (digitsValue radix ds)))"

fun leadingDigit :: "nat \<Rightarrow> nat" where
  "leadingDigit n = (if n < 10 then n else leadingDigit (n div 10))"

text \<open>
  \<open>parseInt(number)\<close>: the number is first printed. Below \<open>10^21\<close> the print is the plain
  decimal numeral, read back unchanged; from \<open>10^21\<close> on it is in exponent notation, of
  which only the leading digit is read.
\<close>

definition parseIntNum :: "jsnum \<Rightarrow> jsnum" where
  "parseIntNum x =
     (case x of
        NaN \<Rightarrow> NaN
      | Number n \<Rightarrow>
          if \<bar>n\<bar> < 10 ^ 21 then Number n
          else Number (sgn n * int (leadingDigit (nat \<bar>n\<bar>))))"

definition toLowerChar :: "char \<Rightarrow> char" where
  "toLowerChar c =
     (let n = (of_char c :: nat) in
      if (65 \<le> n \<and> n \<le> 90) \<or> (192 \<le> n \<and> n \<le> 222 \<and> n \<noteq> 215)
      then char_of (n + 32) else c)"

definition toLowerCase :: "string \<Rightarrow> string" where
  "toLowerCase s = map toLowerChar s"

definition trim :: "string \<Rightarrow> string" where
  "trim s = rev (dropWhile isStrWhiteSpace (rev (dropWhile isStrWhiteSpace s)))"

text \<open>\<open>s.split(',')\<close>: the empty string splits into one empty piece.\<close>

fun split :: "char \<Rightarrow> string \<Rightarrow> string list" where
  "split sep [] = [[]]"
| "split sep (c # cs) =
     (if c = sep then [] # split sep cs
      else (case split sep cs of [] \<Rightarrow> [[c]] | w # ws \<Rightarrow> (c # w) # ws))"

fun digitChar :: "nat \<Rightarrow> char" where
  "digitChar n = char_of (48 + n)"

text \<open>The decimal print of a non-negative integer, as a template literal inserts it.\<close>

fun decimal :: "nat \<Rightarrow> string" where
  "decimal n = (if n < 10 then [digitChar n] else decimal (n div 10) @ [digitChar (n mod 10)])"

section \<open>The data model (models/fileMetadata.js)\<close>

record fileVersion =
  versionNumber :: int
  sha256Hash :: string
  ipfsHash :: string
  fileSize :: int
  mimeType :: string
  uploadedAt :: nat
  uploadedBy :: string

record fileMetadata =
  fileId :: string
  originalFileName :: string
  owner :: string
  isActive :: bool
  versions :: "fileVersion list"
  tags :: "string list"
  description :: string
  createdAt :: nat
  updatedAt :: nat

text \<open>The argument of \<open>addVersion\<close>: a version without its number.\<close>

record versionData =
  vd_sha256Hash :: string
  vd_ipfsHash :: string
  vd_fileSize :: int
  vd_mimeType :: string
  vd_uploadedBy :: string

text \<open>
  \<open>addVersion\<close> numbers the new version \<open>versions.length + 1\<close>, pushes it and bumps
  \<open>updatedAt\<close>; it returns the new version together with the changed document. The
  version returned is the object that was built; the strings of a pushed version
  (\<open>ipfsHash\<close>, \<open>mimeType\<close>, \<open>uploadedBy\<close>) are taken without surrounding white space,
  which the schema would trim from the stored copy only.
\<close>

definition addVersion :: "nat \<Rightarrow> versionData \<Rightarrow> fileMetadata \<Rightarrow> fileVersion \<times> fileMetadata" where
  "addVersion clock vd fm =
     (let nextVersionNumber = int (length (versions fm)) + 1;
          newVersion = \<lparr> versionNumber = nextVersionNumber,
                         sha256Hash = vd_sha256Hash vd,
                         ipfsHash = vd_ipfsHash vd,
                         fileSize = vd_fileSize vd,
                         mimeType = vd_mimeType vd,
                         uploadedAt = clock,
                         uploadedBy = vd_uploadedBy vd \<rparr>
      in (newVersion, fm\<lparr> versions := versions fm @ [newVersion], updatedAt := clock \<rparr>))"

text \<open>\<open>getVersion\<close> parses its argument again and returns the first version with that number.\<close>

definition getVersion :: "fileMetadata \<Rightarrow> jsnum \<Rightarrow> fileVersion option" where
  "getVersion fm n =
     List.find (\<lambda>v. strictEq (Number (versionNumber v)) (parseIntNum n)) (versions fm)"

definition getLatestVersion :: "fileMetadata \<Rightarrow> fileVersion option" where
  "getLatestVersion fm =
     (if length (versions fm) = 0 then None
      else Some (versions fm ! (length (versions fm) - 1)))"

section \<open>The collaborators: hashing, the content store, the metadata store\<close>

text \<open>
  The digests and the content identifier are computed by libraries outside the repository;
  they are parameters of the model. \<open>runQuery\<close> is the metadata store's query engine as
  \<open>searchFiles\<close> uses it (\<open>find\<close> with sort, skip and limit, and \<open>countDocuments\<close>): it
  returns the page and the total, or nothing when the store rejects the query.
\<close>

record searchConditions =
  cond_isActive :: bool
  cond_or :: "string option"
  cond_owner :: "string option"
  cond_tags :: "string list option"

record prims =
  sha256 :: "buffer \<Rightarrow> string"
  md5 :: "string \<Rightarrow> string"
  cid :: "buffer \<Rightarrow> string"
  runQuery :: "searchConditions \<Rightarrow> jsnum \<Rightarrow> jsnum \<Rightarrow> fileMetadata list
                 \<Rightarrow> (fileMetadata list \<times> int) option"

text \<open>
  What the surroundings decide during one request: the clock, the random bytes drawn by
  \<open>generateFileId\<close>, and whether the calls to the two stores go through.
\<close>

record env =
  now :: nat
  randomHex :: string
  dbReadOk :: bool
  dbWriteOk :: bool
  ipfsOk :: bool

text \<open>
  The state: the \<open>FileMetadata\<close> collection in insertion order (a document is never
  removed, so its position identifies it), the content store as address and bytes, and
  the connection flag of \<open>ipfsService\<close>.
\<close>

record state =
  files :: "fileMetadata list"
  ipfsBlobs :: "(string \<times> buffer) list"
  ipfsConnected :: bool

subsection \<open>utils/hashUtils.js\<close>

definition generateSHA256FromBuffer :: "prims \<Rightarrow> buffer \<Rightarrow> string" where
  "generateSHA256FromBuffer P buf = sha256 P buf"

definition verifyHash :: "prims \<Rightarrow> buffer \<Rightarrow> string \<Rightarrow> bool" where
  "verifyHash P buf expectedHash =
     (let actualHash = generateSHA256FromBuffer P buf
      in toLowerCase actualHash = toLowerCase expectedHash)"

text \<open>One draw: the identifier is the MD5 of name, owner, clock and random bytes.\<close>

definition generateFileId :: "prims \<Rightarrow> env \<Rightarrow> string \<Rightarrow> string \<Rightarrow> string" where
  "generateFileId P e originalName ownr =
     md5 P (originalName @ ''_'' @ ownr @ ''_'' @ decimal (now e) @ ''_'' @ randomHex e)"

subsection \<open>services/ipfsService.js\<close>

text \<open>Both calls throw when the client is not connected or the node call fails.\<close>

definition ipfs_uploadFile :: "prims \<Rightarrow> env \<Rightarrow> buffer \<Rightarrow> state \<Rightarrow> string option \<times> state" where
  "ipfs_uploadFile P e buf s =
     (if \<not> ipfsConnected s then (None, s)
      else if \<not> ipfsOk e then (None, s)
      else (Some (cid P buf), s\<lparr> ipfsBlobs := (cid P buf, buf) # ipfsBlobs s \<rparr>))"

definition ipfs_downloadFile :: "env \<Rightarrow> string \<Rightarrow> state \<Rightarrow> buffer option" where
  "ipfs_downloadFile e address s =
     (if \<not> ipfsConnected s then None
      else if \<not> ipfsOk e then None
      else map_of (ipfsBlobs s) address)"

subsection \<open>The collection\<close>

fun findIndex :: "('a \<Rightarrow> bool) \<Rightarrow> 'a list \<Rightarrow> nat option" where
  "findIndex p [] = None"
| "findIndex p (x # xs) = (if p x then Some 0 else map_option Suc (findIndex p xs))"

text \<open>\<open>findOne\<close>: the first document that satisfies the filter, with its position.\<close>

definition findOne :: "(fileMetadata \<Rightarrow> bool) \<Rightarrow> fileMetadata list \<Rightarrow> (nat \<times> fileMetadata) option" where
  "findOne p docs = map_option (\<lambda>i. (i, docs ! i)) (findIndex p docs)"

text \<open>The static \<open>findByHash\<close>: an active document one of whose versions has the hash.\<close>

definition findByHash :: "string \<Rightarrow> fileMetadata list \<Rightarrow> (nat \<times> fileMetadata) option" where
  "findByHash h docs =
     findOne (\<lambda>f. list_ex (\<lambda>v. sha256Hash v = h) (versions f) \<and> isActive f) docs"

text \<open>
  \<open>save\<close> of a new document: the write can fail, and the unique index on \<open>fileId\<close>
  rejects an identifier that some document, active or not, already has. A document
  that the validators of the schema refuse is a failed write as well.
\<close>

definition saveNew :: "env \<Rightarrow> fileMetadata \<Rightarrow> state \<Rightarrow> state option" where
  "saveNew e doc s =
     (if \<not> dbWriteOk e then None
      else if fileId doc \<in> set (map fileId (files s)) then None
      else Some (s\<lparr> files := files s @ [doc\<lparr> updatedAt := now e \<rparr>] \<rparr>))"

text \<open>
  \<open>save\<close> of a fetched document sends what was changed on the copy, not the copy: a
  pushed version is appended to the versions the stored document has at that moment, a
  field that was set is set. No revision is compared, so the write goes through
  whatever happened to the stored document since it was fetched. The hook sets
  \<open>updatedAt\<close>.
\<close>

definition saveExisting ::
  "env \<Rightarrow> nat \<Rightarrow> (fileMetadata \<Rightarrow> fileMetadata) \<Rightarrow> state \<Rightarrow> state option" where
  "saveExisting e i change s =
     (if \<not> dbWriteOk e then None
      else Some (s\<lparr> files := (files s)[i := (change (files s ! i))\<lparr> updatedAt := now e \<rparr>] \<rparr>))"

section \<open>Requests and responses (controllers/fileController.js)\<close>

text \<open>The uploaded file as the multipart middleware hands it over.\<close>

record upload =
  buffer :: buffer
  originalname :: string
  mimetype :: string
  size_f :: int

record uploadRequest =
  up_file :: "upload option"
  up_owner :: "string option"
  up_description :: "string option"
  up_tags :: "string option"

record versionRequest =
  av_fileId :: string
  av_file :: "upload option"
  av_uploadedBy :: "string option"

record versionSelector =
  vs_fileId :: string
  vs_versionIndex :: "string option"

text \<open>
  A field of a JSON body, by what the handler and the store make of it: a falsy value
  (absent, \<open>null\<close>, \<open>false\<close>, \<open>0\<close>; the empty string is falsy too), a string (a number or
  \<open>true\<close> reaches the filter as its print), an array or an object of query operators,
  which the store matches as the condition it denotes, or an object the store cannot
  cast.
\<close>

datatype bodyValue = Falsy | Text string | Operator "string \<Rightarrow> bool" | Uncastable

record deleteRequest =
  del_fileId :: string
  del_owner :: bodyValue

record searchRequest =
  sq_query :: "string option"
  sq_owner :: "string option"
  sq_tags :: "string option"
  sq_page :: "string option"
  sq_limit :: "string option"

record verificationResult =
  vr_fileId :: string
  vr_versionNumber :: jsnum
  vr_ipfsHash :: string
  expectedHash :: string
  actualHash :: string
  isValid :: bool
  vr_fileSize :: int
  expectedFileSize :: int
  sizesMatch :: bool
  verifiedAt :: nat

text \<open>
  One constructor for each response a handler sends: the status, and the data the claims
  read. \<open>Status500_VerifyFetch\<close> is the answer of the inner \<open>catch\<close> of
  \<open>verifyFileIntegrity\<close>; \<open>Status500\<close> is every outer \<open>catch\<close>, with its message.
\<close>

datatype response =
    Status400 string
  | Status404 string
  | Status404_Version jsnum
  | Status409_DuplicateContent string string
  | Status409_DuplicateVersion int
  | Status500 string
  | Status500_VerifyFetch string jsnum string
  | Status201_Uploaded string int string string
  | Status201_VersionAdded string fileVersion
  | Status200_Download buffer fileVersion
  | Status200_Verified verificationResult
  | Status200_Deleted string
  | Status200_Search "fileMetadata list" int searchConditions

subsection \<open>uploadFile\<close>

text \<open>
  The new document. The schema declares its strings with \<open>trim: true\<close>, so they are stored
  without surrounding white space; \<open>fileId\<close> is the hex digest that \<open>generateFileId\<close>
  returns, which has none, and the hash has no such option.
\<close>

definition newFileMetadata ::
  "env \<Rightarrow> string \<Rightarrow> upload \<Rightarrow> string \<Rightarrow> uploadRequest \<Rightarrow> string \<Rightarrow> string \<Rightarrow> fileMetadata" where
  "newFileMetadata e fid f ownr req h ipfsH =
     \<lparr> fileId = fid,
       originalFileName = trim (originalname f),
       owner = trim ownr,
       isActive = True,
       versions = [\<lparr> versionNumber = 1,
                     sha256Hash = h,
                     ipfsHash = trim ipfsH,
                     fileSize = size_f f,
                     mimeType = trim (mimetype f),
                     uploadedAt = now e,
                     uploadedBy = trim ownr \<rparr>],
       tags = (case up_tags req of
                 None \<Rightarrow> []
               | Some ts \<Rightarrow> if ts = [] then [] else map trim (split CHR '','' ts)),
       description = (case up_description req of
                        None \<Rightarrow> []
                      | Some d \<Rightarrow> trim d),
       createdAt = now e,
       updatedAt = now e \<rparr>"

definition uploadFile :: "prims \<Rightarrow> env \<Rightarrow> uploadRequest \<Rightarrow> state \<Rightarrow> response \<times> state" where
  "uploadFile P e req s =
     (case up_file req of
        None \<Rightarrow> (Status400 ''No file provided'', s)
      | Some f \<Rightarrow>
          (case up_owner req of
             None \<Rightarrow> (Status400 ''Owner ID is required'', s)
           | Some ownr \<Rightarrow>
               if ownr = [] then (Status400 ''Owner ID is required'', s)
               else
                 let h = generateSHA256FromBuffer P (buffer f) in
                 if \<not> dbReadOk e then (Status500 ''Failed to upload file'', s)
                 else
                   (case findByHash h (files s) of
                      Some (i, existingFile) \<Rightarrow>
                        (Status409_DuplicateContent (fileId existingFile) h, s)
                    | None \<Rightarrow>
                        (case ipfs_uploadFile P e (buffer f) s of
                           (None, s1) \<Rightarrow> (Status500 ''Failed to upload file'', s1)
                         | (Some ipfsH, s1) \<Rightarrow>
                             let fid = generateFileId P e (originalname f) ownr;
                                 doc = newFileMetadata e fid f ownr req h ipfsH
                             in (case saveNew e doc s1 of
                                   None \<Rightarrow> (Status500 ''Failed to upload file'', s1)
                                 | Some s2 \<Rightarrow> (Status201_Uploaded fid 1 h ipfsH, s2))))))"

subsection \<open>addNewVersion\<close>

text \<open>
  The identifier of the route is compared as passed here and in \<open>downloadFile\<close> and
  \<open>verifyFileIntegrity\<close>: it is taken without surrounding white space, which the store
  would trim in the filter.
\<close>

definition addNewVersion :: "prims \<Rightarrow> env \<Rightarrow> versionRequest \<Rightarrow> state \<Rightarrow> response \<times> state" where
  "addNewVersion P e req s =
     (case av_file req of
        None \<Rightarrow> (Status400 ''No file provided'', s)
      | Some f \<Rightarrow>
          (case av_uploadedBy req of
             None \<Rightarrow> (Status400 ''uploadedBy is required'', s)
           | Some uploader \<Rightarrow>
               if uploader = [] then (Status400 ''uploadedBy is required'', s)
               else if \<not> dbReadOk e then (Status500 ''Failed to add new version'', s)
               else
                 (case findOne (\<lambda>d. fileId d = av_fileId req \<and> isActive d) (files s) of
                    None \<Rightarrow> (Status404 ''File not found'', s)
                  | Some (i, fm) \<Rightarrow>
                      let h = generateSHA256FromBuffer P (buffer f) in
                      (case List.find (\<lambda>v. sha256Hash v = h) (versions fm) of
                         Some existingVersion \<Rightarrow>
                           (Status409_DuplicateVersion (versionNumber existingVersion), s)
                       | None \<Rightarrow>
                           (case ipfs_uploadFile P e (buffer f) s of
                              (None, s1) \<Rightarrow> (Status500 ''Failed to add new version'', s1)
                            | (Some ipfsH, s1) \<Rightarrow>
                                let (newVersion, fm') =
                                      addVersion (now e)
                                        \<lparr> vd_sha256Hash = h,
                                          vd_ipfsHash = ipfsH,
                                          vd_fileSize = size_f f,
                                          vd_mimeType = mimetype f,
                                          vd_uploadedBy = uploader \<rparr> fm
                                in (case saveExisting e i
                                           (\<lambda>d. d\<lparr> versions := versions d @ [newVersion] \<rparr>) s1 of
                                      None \<Rightarrow> (Status500 ''Failed to add new version'', s1)
                                    | Some s2 \<Rightarrow>
                                        (Status201_VersionAdded (fileId fm') newVersion, s2)))))))"



text \<open>
  Calls of \<open>addNewVersion\<close> that run one after the other, each with its own surroundings:
  the answers in the order of the calls, and the state after the last one.
\<close>

fun appendAll :: "prims \<Rightarrow> (env \<times> versionRequest) list \<Rightarrow> state \<Rightarrow> response list \<times> state" where
  "appendAll P [] s = ([], s)"
| "appendAll P (call # calls) s =
     (case addNewVersion P (fst call) (snd call) s of
        (r, s1) \<Rightarrow> (case appendAll P calls s1 of (rs, s2) \<Rightarrow> (r # rs, s2)))"





subsection \<open>downloadFile and verifyFileIntegrity\<close>

text \<open>
  The end of \<open>downloadFile\<close>, once a version is resolved: the bytes are fetched and sent
  only if their digest is the recorded one.
\<close>

definition sendVersion :: "prims \<Rightarrow> env \<Rightarrow> fileVersion \<Rightarrow> state \<Rightarrow> response \<times> state" where
  "sendVersion P e version s =
     (case ipfs_downloadFile e (ipfsHash version) s of
        None \<Rightarrow> (Status500 ''Failed to download file'', s)
      | Some fileBuffer \<Rightarrow>
          if \<not> verifyHash P fileBuffer (sha256Hash version)
          then (Status500 ''File integrity verification failed'', s)
          else (Status200_Download fileBuffer version, s))"

text \<open>
  \<open>downloadFile\<close> resolves a version first: a selector that is present and not empty is
  parsed and looked up by number; only an absent selector asks for the latest version.
\<close>

definition downloadFile :: "prims \<Rightarrow> env \<Rightarrow> versionSelector \<Rightarrow> state \<Rightarrow> response \<times> state" where
  "downloadFile P e req s =
     (if \<not> dbReadOk e then (Status500 ''Failed to download file'', s)
      else
        (case findOne (\<lambda>d. fileId d = vs_fileId req \<and> isActive d) (files s) of
           None \<Rightarrow> (Status404 ''File not found'', s)
         | Some (i, fm) \<Rightarrow>
             (case vs_versionIndex req of
                Some versionIndex \<Rightarrow>
                  if versionIndex \<noteq> [] then
                    (let vnum = parseInt versionIndex
                     in (case getVersion fm vnum of
                           None \<Rightarrow> (Status404_Version vnum, s)
                         | Some version \<Rightarrow> sendVersion P e version s))
                  else
                    (case getLatestVersion fm of
                       None \<Rightarrow> (Status404 ''No versions available'', s)
                     | Some version \<Rightarrow> sendVersion P e version s)
              | None \<Rightarrow>
                  (case getLatestVersion fm of
                     None \<Rightarrow> (Status404 ''No versions available'', s)
                   | Some version \<Rightarrow> sendVersion P e version s))))"

text \<open>The route of \<open>verifyFileIntegrity\<close> always has a selector.\<close>

definition verifyFileIntegrity ::
  "prims \<Rightarrow> env \<Rightarrow> string \<Rightarrow> string \<Rightarrow> state \<Rightarrow> response \<times> state" where
  "verifyFileIntegrity P e fid versionIndex s =
     (if \<not> dbReadOk e then (Status500 ''Failed to verify file integrity'', s)
      else
        (case findOne (\<lambda>d. fileId d = fid \<and> isActive d) (files s) of
           None \<Rightarrow> (Status404 ''File not found'', s)
         | Some (i, fm) \<Rightarrow>
             let vnum = parseInt versionIndex in
             (case getVersion fm vnum of
                None \<Rightarrow> (Status404_Version vnum, s)
              | Some version \<Rightarrow>
                  (case ipfs_downloadFile e (ipfsHash version) s of
                     None \<Rightarrow> (Status500_VerifyFetch fid vnum (ipfsHash version), s)
                   | Some fileBuffer \<Rightarrow>
                       let valid = verifyHash P fileBuffer (sha256Hash version) in
                       (Status200_Verified
                          \<lparr> vr_fileId = fid,
                            vr_versionNumber = vnum,
                            vr_ipfsHash = ipfsHash version,
                            expectedHash = sha256Hash version,
                            actualHash = generateSHA256FromBuffer P fileBuffer,
                            isValid = valid,
                            vr_fileSize = int (length fileBuffer),
                            expectedFileSize = fileSize version,
                            sizesMatch = (int (length fileBuffer) = fileSize version),
                            verifiedAt = now e \<rparr>, s)))))"

subsection \<open>deleteFile\<close>

text \<open>
  The lookup and the write of \<open>deleteFile\<close>, for the condition on the owner that the
  filter carries. The store applies the schema's \<open>trim\<close> to the strings of the filter: the
  identifier of the route and a claimed owner are compared without their surrounding
  white space.
\<close>

definition softDelete :: "env \<Rightarrow> string \<Rightarrow> (string \<Rightarrow> bool) \<Rightarrow> state \<Rightarrow> response \<times> state" where
  "softDelete e fid ownerIs s =
     (if \<not> dbReadOk e then (Status500 ''Failed to delete file'', s)
      else
        (case findOne (\<lambda>d. fileId d = trim fid \<and> ownerIs (owner d) \<and> isActive d) (files s) of
           None \<Rightarrow> (Status404 ''File not found or access denied'', s)
         | Some (i, fm) \<Rightarrow>
             (case saveExisting e i (\<lambda>d. d\<lparr> isActive := False \<rparr>) s of
                None \<Rightarrow> (Status500 ''Failed to delete file'', s)
              | Some s' \<Rightarrow> (Status200_Deleted fid, s'))))"

text \<open>
  \<open>deleteFile\<close>: only a falsy owner is refused before the lookup. An object of query
  operators passes the guard and becomes the condition on the owner; a value that the
  store cannot cast makes the lookup throw.
\<close>

definition deleteFile :: "env \<Rightarrow> deleteRequest \<Rightarrow> state \<Rightarrow> response \<times> state" where
  "deleteFile e req s =
     (case del_owner req of
        Falsy \<Rightarrow> (Status400 ''Owner verification required'', s)
      | Text ownr \<Rightarrow>
          if ownr = [] then (Status400 ''Owner verification required'', s)
          else softDelete e (del_fileId req) (\<lambda>stored. stored = trim ownr) s
      | Operator matches \<Rightarrow> softDelete e (del_fileId req) matches s
      | Uncastable \<Rightarrow> (Status500 ''Failed to delete file'', s))"

subsection \<open>searchFiles\<close>

text \<open>
  The filter object: each populated filter adds its condition to \<open>isActive: true\<close>. The
  parameters of the query string are taken to be strings.
\<close>

definition searchConditionsOf :: "searchRequest \<Rightarrow> searchConditions" where
  "searchConditionsOf req =
     \<lparr> cond_isActive = True,
       cond_or = (if truthy (sq_query req) then sq_query req else None),
       cond_owner = (if truthy (sq_owner req) then sq_owner req else None),
       cond_tags = (case sq_tags req of
                      None \<Rightarrow> None
                    | Some ts \<Rightarrow> if ts = [] then None else Some (map trim (split CHR '','' ts))) \<rparr>"

text \<open>\<open>page\<close> and \<open>limit\<close> default to the numbers 1 and 10 and go through \<open>parseInt\<close>.\<close>

definition pageOf :: "searchRequest \<Rightarrow> jsnum" where
  "pageOf req = (case sq_page req of None \<Rightarrow> parseIntNum (Number 1) | Some p \<Rightarrow> parseInt p)"

definition limitOf :: "searchRequest \<Rightarrow> jsnum" where
  "limitOf req = (case sq_limit req of None \<Rightarrow> parseIntNum (Number 10) | Some l \<Rightarrow> parseInt l)"

text \<open>
  The response carries the page, the total and the criteria; the page counters derived
  from them by floating-point division are left out.
\<close>

definition searchFiles :: "prims \<Rightarrow> env \<Rightarrow> searchRequest \<Rightarrow> state \<Rightarrow> response \<times> state" where
  "searchFiles P e req s =
     (if \<not> truthy (sq_query req) \<and> \<not> truthy (sq_owner req) \<and> \<not> truthy (sq_tags req)
      then (Status400 ''At least one search parameter is required'', s)
      else
        let searchConditions = searchConditionsOf req;
            skip = jsTimes (jsMinus (pageOf req) (Number 1)) (limitOf req)
        in if \<not> dbReadOk e then (Status500 ''Failed to search files'', s)
           else
             (case runQuery P searchConditions skip (limitOf req) (files s) of
                None \<Rightarrow> (Status500 ''Failed to search files'', s)
              | Some (found, totalCount) \<Rightarrow>
                  (Status200_Search found totalCount searchConditions, s)))"

section \<open>Reachable states\<close>

text \<open>
  The states the handlers that write can produce from an empty collection when they run
  one after the other, whatever the requests and the surroundings are. The other
  handlers leave the state as it is.
\<close>

inductive reachable :: "prims \<Rightarrow> state \<Rightarrow> bool" for P :: prims where
  initial: "files s = [] \<Longrightarrow> reachable P s"
| upload: "reachable P s \<Longrightarrow> reachable P (snd (uploadFile P e req s))"
| append: "reachable P s \<Longrightarrow> reachable P (snd (addNewVersion P e areq s))"
| delete: "reachable P s \<Longrightarrow> reachable P (snd (deleteFile e dreq s))"

section \<open>The numbering invariant\<close>

text \<open>The version numbers of a document are \<open>1, 2, ..., n\<close> in this order.\<close>

definition contiguous :: "fileMetadata \<Rightarrow> bool" where
  "contiguous f \<longleftrightarrow>
     map versionNumber (versions f) = map int [1..<Suc (length (versions f))]"

section \<open>The retry of the specification\<close>

text \<open>
  Step 4 of \<open>CreateFile\<close> in the words of the specification, to compare with
  \<open>uploadFile\<close>: identifiers are generated up to three times, the first one that no
  existing file has is taken, and three collisions are \<open>IdGenerationExhausted\<close> (the
  value \<open>None\<close>).
\<close>

definition spec_freshFileId :: "string list \<Rightarrow> string list \<Rightarrow> string option" where
  "spec_freshFileId existing candidates =
     List.find (\<lambda>c. c \<notin> set existing) (take 3 candidates)"

section \<open>A concrete run\<close>

text \<open>
  A small instance of the collaborators, and the scenario of the specification on it:
  \<open>alice\<close> uploads \<open>hello world\<close> as \<open>greeting.txt\<close>, then appends \<open>hello world v2\<close>.
\<close>

fun startsWith :: "string \<Rightarrow> string \<Rightarrow> bool" where
  "startsWith [] s = True"
| "startsWith (c # cs) [] = False"
| "startsWith (c # cs) (d # ds) = (c = d \<and> startsWith cs ds)"

fun occursIn :: "string \<Rightarrow> string \<Rightarrow> bool" where
  "occursIn q [] = (q = [])"
| "occursIn q (c # cs) = (startsWith q (c # cs) \<or> occursIn q cs)"

text \<open>
  A small query engine: a document matches when it meets every condition that is set,
  the text being looked for as it stands, without regard to case, in the name, the
  description and the tags; the page is cut out of the matches in stored order.
\<close>

definition stubMatches :: "searchConditions \<Rightarrow> fileMetadata \<Rightarrow> bool" where
  "stubMatches c d \<longleftrightarrow>
     isActive d = cond_isActive c
     \<and> (case cond_or c of
          None \<Rightarrow> True
        | Some q \<Rightarrow>
            occursIn (toLowerCase q) (toLowerCase (originalFileName d))
            \<or> occursIn (toLowerCase q) (toLowerCase (description d))
            \<or> (\<exists>t\<in>set (tags d). occursIn (toLowerCase q) (toLowerCase t)))
     \<and> (case cond_owner c of None \<Rightarrow> True | Some ownr \<Rightarrow> owner d = ownr)
     \<and> (case cond_tags c of None \<Rightarrow> True | Some ts \<Rightarrow> (\<exists>t\<in>set ts. t \<in> set (tags d)))"

definition stubQuery ::
  "searchConditions \<Rightarrow> jsnum \<Rightarrow> jsnum \<Rightarrow> fileMetadata list \<Rightarrow> (fileMetadata list \<times> int) option" where
  "stubQuery c sk lim docs =
     (case (sk, lim) of
        (Number a, Number b) \<Rightarrow>
          if a < 0 then None
          else Some (take (nat b) (drop (nat a) (filter (stubMatches c) docs)),
                     int (length (filter (stubMatches c) docs)))
      | _ \<Rightarrow> None)"

definition stubPrims :: prims where
  "stubPrims =
     \<lparr> sha256 = (\<lambda>b. map (\<lambda>w. digitChar (unat w mod 10)) b),
       md5 = (\<lambda>x. x),
       cid = (\<lambda>b. ''Qm'' @ map (\<lambda>w. digitChar (unat w mod 10)) b),
       runQuery = stubQuery \<rparr>"

definition env0 :: env where
  "env0 = \<lparr> now = 1700, randomHex = ''0a1b2c3d'',
            dbReadOk = True, dbWriteOk = True, ipfsOk = True \<rparr>"

definition envRetry :: env where
  "envRetry = env0\<lparr> randomHex := ''ffffffff'' \<rparr>"

definition envOffline :: env where
  "envOffline = env0\<lparr> ipfsOk := False \<rparr>"

definition state0 :: state where
  "state0 = \<lparr> files = [], ipfsBlobs = [], ipfsConnected = True \<rparr>"

definition helloWorld :: buffer where
  "helloWorld = [104, 101, 108, 108, 111, 32, 119, 111, 114, 108, 100]"

definition helloWorldV2 :: buffer where
  "helloWorldV2 = helloWorld @ [32, 118, 50]"

definition greeting :: upload where
  "greeting = \<lparr> buffer = helloWorld, originalname = ''greeting.txt'',
                mimetype = ''text/plain'', size_f = 11 \<rparr>"

definition greetingV2 :: upload where
  "greetingV2 = \<lparr> buffer = helloWorldV2, originalname = ''greeting.txt'',
                  mimetype = ''text/plain'', size_f = 14 \<rparr>"

definition reqHello :: uploadRequest where
  "reqHello = \<lparr> up_file = Some greeting, up_owner = Some ''alice'',
                up_description = None, up_tags = None \<rparr>"

definition idHello :: string where
  "idHello = ''greeting.txt_alice_1700_0a1b2c3d''"

definition version1 :: fileVersion where
  "version1 = \<lparr> versionNumber = 1, sha256Hash = ''41881291480'',
                ipfsHash = ''Qm41881291480'', fileSize = 11, mimeType = ''text/plain'',
                uploadedAt = 1700, uploadedBy = ''alice'' \<rparr>"

definition version2 :: fileVersion where
  "version2 = \<lparr> versionNumber = 2, sha256Hash = ''41881291480280'',
                ipfsHash = ''Qm41881291480280'', fileSize = 14, mimeType = ''text/plain'',
                uploadedAt = 1700, uploadedBy = ''alice'' \<rparr>"

definition file1 :: fileMetadata where
  "file1 = \<lparr> fileId = idHello, originalFileName = ''greeting.txt'', owner = ''alice'',
             isActive = True, versions = [version1], tags = [], description = [],
             createdAt = 1700, updatedAt = 1700 \<rparr>"

text \<open>The state after the upload, and after the append.\<close>

definition state1 :: state where
  "state1 = \<lparr> files = [file1], ipfsBlobs = [(''Qm41881291480'', helloWorld)],
              ipfsConnected = True \<rparr>"

definition reqV2 :: versionRequest where
  "reqV2 = \<lparr> av_fileId = idHello, av_file = Some greetingV2, av_uploadedBy = Some ''alice'' \<rparr>"

definition state2 :: state where
  "state2 = \<lparr> files = [file1\<lparr> versions := [version1, version2] \<rparr>],
              ipfsBlobs = [(''Qm41881291480280'', helloWorldV2), (''Qm41881291480'', helloWorld)],
              ipfsConnected = True \<rparr>"

text \<open>Further requests on these states.\<close>

definition reqCopy :: uploadRequest where
  "reqCopy = \<lparr> up_file = Some \<lparr> buffer = helloWorld, originalname = ''copy.txt'',
                                 mimetype = ''text/plain'', size_f = 11 \<rparr>,
               up_owner = Some ''bob'', up_description = None, up_tags = None \<rparr>"

definition reqAgain :: uploadRequest where
  "reqAgain = \<lparr> up_file = Some greetingV2, up_owner = Some ''alice'',
                up_description = None, up_tags = None \<rparr>"

definition reqDelete :: "bodyValue \<Rightarrow> deleteRequest" where
  "reqDelete claimedOwner = \<lparr> del_fileId = idHello, del_owner = claimedOwner \<rparr>"

text \<open>The body \<open>{"owner": {"$ne": "bob"}}\<close>.\<close>

definition notBob :: bodyValue where
  "notBob = Operator (\<lambda>stored. stored \<noteq> ''bob'')"

definition state1Deleted :: state where
  "state1Deleted = state1\<lparr> files := [file1\<lparr> isActive := False \<rparr>] \<rparr>"

definition stateCorrupt :: state where
  "stateCorrupt = state1\<lparr> ipfsBlobs := [(''Qm41881291480'', helloWorldV2)] \<rparr>"

definition reqSearch :: searchRequest where
  "reqSearch = \<lparr> sq_query = None, sq_owner = Some ''alice'', sq_tags = Some ''report, draft'',
                 sq_page = None, sq_limit = None \<rparr>"

definition reqSearchEmpty :: searchRequest where
  "reqSearchEmpty = \<lparr> sq_query = None, sq_owner = None, sq_tags = Some [],
                      sq_page = None, sq_limit = None \<rparr>"

definition stateNoVersions :: state where
  "stateNoVersions = state1\<lparr> files := [file1\<lparr> versions := [] \<rparr>] \<rparr>"

definition file2 :: fileMetadata where
  "file2 = file1\<lparr> versions := [version1, version2] \<rparr>"

text \<open>A collection to search: two files of \<open>alice\<close> and one of \<open>bob\<close>, with tags.\<close>

definition stateTagged :: state where
  "stateTagged =
     state1\<lparr> files := [file1\<lparr> tags := [''draft'', ''text''] \<rparr>,
                        file1\<lparr> fileId := ''notes'', tags := [''misc''] \<rparr>,
                        file1\<lparr> fileId := ''plan'', owner := ''bob'', tags := [''report''] \<rparr>] \<rparr>"

text \<open>
  A second append to the first version of the greeting, \<open>hello world v3\<close>, and the state
  in which both appends were saved after both had fetched the document of \<open>state1\<close>.
\<close>

definition helloWorldV3 :: buffer where
  "helloWorldV3 = helloWorld @ [32, 118, 51]"

definition greetingV3 :: upload where
  "greetingV3 = \<lparr> buffer = helloWorldV3, originalname = ''greeting.txt'',
                  mimetype = ''text/plain'', size_f = 14 \<rparr>"

definition reqV3 :: versionRequest where
  "reqV3 = \<lparr> av_fileId = idHello, av_file = Some greetingV3, av_uploadedBy = Some ''alice'' \<rparr>"

definition version2b :: fileVersion where
  "version2b = \<lparr> versionNumber = 2, sha256Hash = ''41881291480281'',
                 ipfsHash = ''Qm41881291480281'', fileSize = 14, mimeType = ''text/plain'',
                 uploadedAt = 1700, uploadedBy = ''alice'' \<rparr>"

definition version3 :: fileVersion where
  "version3 = version2b\<lparr> versionNumber := 3 \<rparr>"

definition stateRace :: state where
  "stateRace =
     \<lparr> files = [file1\<lparr> versions := [version1, version2, version2b] \<rparr>],
       ipfsBlobs = [(''Qm41881291480281'', helloWorldV3), (''Qm41881291480280'', helloWorldV2),
                    (''Qm41881291480'', helloWorld)],
       ipfsConnected = True \<rparr>"

definition state3 :: state where
  "state3 = stateRace\<lparr> files := [file1\<lparr> versions := [version1, version2, version3] \<rparr>] \<rparr>"

section \<open>The integer a selector starts with\<close>


section \<open>Lookups in the collection\<close>

lemma findIndex_SomeD:
  "findIndex p xs = Some i \<Longrightarrow> i < length xs \<and> p (xs ! i) \<and> (\<forall>j<i. \<not> p (xs ! j))"
proof (induction xs arbitrary: i)
  case Nil
  then show ?case by simp
next
  case (Cons x xs)
  show ?case
  proof (cases "p x")
    case True
    with Cons.prems show ?thesis by simp
  next
    case False
    with Cons.prems obtain k where k: "findIndex p xs = Some k" "i = Suc k"
      by auto
    from Cons.IH [OF k(1)] False k(2) show ?thesis
      by (auto simp: nth_Cons split: nat.splits)
  qed
qed

lemma findIndex_None_iff: "findIndex p xs = None \<longleftrightarrow> (\<forall>x\<in>set xs. \<not> p x)"
  by (induction xs) auto

lemma findOne_SomeD:
  "findOne p docs = Some (i, d) \<Longrightarrow>
     i < length docs \<and> d = docs ! i \<and> p d \<and> d \<in> set docs \<and> (\<forall>j<i. \<not> p (docs ! j))"
  unfolding findOne_def by (auto dest!: findIndex_SomeD)

lemma findOne_None_iff: "findOne p docs = None \<longleftrightarrow> (\<forall>x\<in>set docs. \<not> p x)"
  unfolding findOne_def by (simp add: findIndex_None_iff)

section \<open>What a handler does to the collection\<close>

lemma uploadFile_created:
  assumes "uploadFile P e req s = (Status201_Uploaded fid n h a, s')"
  shows "n = 1 \<and> (\<exists>doc. files s' = files s @ [doc] \<and> fileId doc = fid
            \<and> map versionNumber (versions doc) = [1] \<and> fid \<notin> fileId ` set (files s))"
  using assms
  by (auto simp: uploadFile_def saveNew_def ipfs_uploadFile_def newFileMetadata_def Let_def
      split: option.splits prod.splits if_splits)

lemma uploadFile_files:
  "files (snd (uploadFile P e req s)) = files s \<or>
   (\<exists>doc. files (snd (uploadFile P e req s)) = files s @ [doc]
       \<and> map versionNumber (versions doc) = [1])"
  by (auto simp: uploadFile_def saveNew_def ipfs_uploadFile_def newFileMetadata_def Let_def
      split: option.splits prod.splits if_splits)

lemma addNewVersion_added:
  assumes "addNewVersion P e req s = (Status201_VersionAdded fid v, s')"
  shows "\<exists>i fm. findOne (\<lambda>d. fileId d = av_fileId req \<and> isActive d) (files s) = Some (i, fm)
           \<and> versionNumber v = int (length (versions fm)) + 1
           \<and> files s' = (files s)[i := (files s' ! i)]
           \<and> versions (files s' ! i) = versions fm @ [v]
           \<and> fileId (files s' ! i) = fid \<and> fid = av_fileId req"
  using assms
  by (auto simp: addNewVersion_def saveExisting_def ipfs_uploadFile_def addVersion_def Let_def
      split: option.splits prod.splits if_splits dest!: findOne_SomeD)

lemma addNewVersion_files:
  "files (snd (addNewVersion P e req s)) = files s \<or>
   (\<exists>i fm'. i < length (files s) \<and> files (snd (addNewVersion P e req s)) = (files s)[i := fm']
       \<and> map versionNumber (versions fm') =
           map versionNumber (versions (files s ! i)) @ [int (length (versions (files s ! i))) + 1])"
proof (cases "\<exists>fid v. fst (addNewVersion P e req s) = Status201_VersionAdded fid v")
  case False
  then have "files (snd (addNewVersion P e req s)) = files s"
    by (auto simp: addNewVersion_def saveExisting_def ipfs_uploadFile_def addVersion_def Let_def
        split: option.splits prod.splits if_splits)
  then show ?thesis ..
next
  case True
  then obtain fid v where "addNewVersion P e req s = (Status201_VersionAdded fid v, snd (addNewVersion P e req s))"
    by (metis prod.collapse)
  from addNewVersion_added [OF this] obtain i fm where
    f: "findOne (\<lambda>d. fileId d = av_fileId req \<and> isActive d) (files s) = Some (i, fm)"
    and n: "versionNumber v = int (length (versions fm)) + 1"
    and u: "files (snd (addNewVersion P e req s)) = (files s)[i := (files (snd (addNewVersion P e req s)) ! i)]"
    and vs: "versions (files (snd (addNewVersion P e req s)) ! i) = versions fm @ [v]"
    by blast
  from findOne_SomeD [OF f] have i: "i < length (files s)" and fm: "fm = files s ! i"
    by simp_all
  from vs n fm have "map versionNumber (versions (files (snd (addNewVersion P e req s)) ! i)) =
      map versionNumber (versions (files s ! i)) @ [int (length (versions (files s ! i))) + 1]"
    by simp
  with i u show ?thesis by blast
qed

lemma softDelete_deleted:
  assumes "softDelete e fid ownerIs s = (Status200_Deleted fid', s')"
  shows "\<exists>i<length (files s).
           s' = s\<lparr> files := (files s)[i := (files s ! i)\<lparr> isActive := False, updatedAt := now e \<rparr>] \<rparr>"
proof -
  let ?p = "\<lambda>d. fileId d = trim fid \<and> ownerIs (owner d) \<and> isActive d"
  from assms obtain i fm where f: "findOne ?p (files s) = Some (i, fm)"
    and s': "saveExisting e i (\<lambda>d. d\<lparr> isActive := False \<rparr>) s = Some s'"
    by (auto simp: softDelete_def split: option.splits prod.splits if_splits)
  from findOne_SomeD [OF f] have "i < length (files s)" by simp
  moreover from s'
  have "s' = s\<lparr> files := (files s)[i := (files s ! i)\<lparr> isActive := False, updatedAt := now e \<rparr>] \<rparr>"
    by (auto simp: saveExisting_def split: if_splits)
  ultimately show ?thesis by blast
qed

lemma softDelete_unchanged:
  assumes "\<not> (\<exists>fid'. fst (softDelete e fid ownerIs s) = Status200_Deleted fid')"
  shows "snd (softDelete e fid ownerIs s) = s"
  using assms
  by (auto simp: softDelete_def split: option.splits prod.splits if_splits)

lemma deleteFile_deleted:
  assumes "deleteFile e req s = (Status200_Deleted fid, s')"
  shows "\<exists>i<length (files s).
           s' = s\<lparr> files := (files s)[i := (files s ! i)\<lparr> isActive := False, updatedAt := now e \<rparr>] \<rparr>"
proof (cases "del_owner req")
  case Falsy
  with assms show ?thesis by (simp add: deleteFile_def)
next
  case (Text ownr)
  with assms have "softDelete e (del_fileId req) (\<lambda>stored. stored = trim ownr) s
      = (Status200_Deleted fid, s')"
    by (simp add: deleteFile_def split: if_splits)
  then show ?thesis by (rule softDelete_deleted)
next
  case (Operator matches)
  with assms have "softDelete e (del_fileId req) matches s = (Status200_Deleted fid, s')"
    by (simp add: deleteFile_def)
  then show ?thesis by (rule softDelete_deleted)
next
  case Uncastable
  with assms show ?thesis by (simp add: deleteFile_def)
qed

lemma deleteFile_unchanged:
  assumes "\<not> (\<exists>fid. fst (deleteFile e req s) = Status200_Deleted fid)"
  shows "snd (deleteFile e req s) = s"
proof (cases "del_owner req")
  case Falsy
  then show ?thesis by (simp add: deleteFile_def)
next
  case (Text ownr)
  show ?thesis
  proof (cases "ownr = []")
    case True
    with Text show ?thesis by (simp add: deleteFile_def)
  next
    case False
    with Text have eq: "deleteFile e req s
        = softDelete e (del_fileId req) (\<lambda>stored. stored = trim ownr) s"
      by (simp add: deleteFile_def)
    from assms show ?thesis unfolding eq by (rule softDelete_unchanged)
  qed
next
  case (Operator matches)
  then have eq: "deleteFile e req s = softDelete e (del_fileId req) matches s"
    by (simp add: deleteFile_def)
  from assms show ?thesis unfolding eq by (rule softDelete_unchanged)
next
  case Uncastable
  then show ?thesis by (simp add: deleteFile_def)
qed

lemma deleteFile_files:
  "files (snd (deleteFile e req s)) = files s \<or>
   (\<exists>i fm'. i < length (files s) \<and> files (snd (deleteFile e req s)) = (files s)[i := fm']
       \<and> versions fm' = versions (files s ! i))"
proof (cases "\<exists>fid. fst (deleteFile e req s) = Status200_Deleted fid")
  case False
  then have "snd (deleteFile e req s) = s"
    by (rule deleteFile_unchanged)
  then show ?thesis by simp
next
  case True
  then obtain fid where "deleteFile e req s = (Status200_Deleted fid, snd (deleteFile e req s))"
    by (metis prod.collapse)
  from deleteFile_deleted [OF this] obtain i where i: "i < length (files s)"
    and u: "snd (deleteFile e req s) =
              s\<lparr> files := (files s)[i := (files s ! i)\<lparr> isActive := False, updatedAt := now e \<rparr>] \<rparr>"
    by blast
  from u have "files (snd (deleteFile e req s)) =
      (files s)[i := (files s ! i)\<lparr> isActive := False, updatedAt := now e \<rparr>]"
    by simp
  moreover have "versions ((files s ! i)\<lparr> isActive := False, updatedAt := now e \<rparr>) = versions (files s ! i)"
    by simp
  ultimately show ?thesis using i by blast
qed

lemma contiguous_single:
  assumes "map versionNumber vs = [1]"
  shows "map versionNumber vs = map int [1..<Suc (length vs)]"
proof -
  have "length (map versionNumber vs) = length [1::int]"
    using assms by simp
  then have "length vs = 1" by simp
  then show ?thesis using assms by simp
qed

lemma contiguous_snoc:
  assumes "map versionNumber vs = map int [1..<Suc (length vs)]"
    and "map versionNumber ws = map versionNumber vs @ [int (length vs) + 1]"
  shows "map versionNumber ws = map int [1..<Suc (length ws)]"
proof -
  have "length (map versionNumber ws) = length (map versionNumber vs @ [int (length vs) + 1])"
    using assms(2) by simp
  then have "length ws = Suc (length vs)" by simp
  then show ?thesis using assms by simp
qed

lemma reachable_contiguous:
  "reachable P s \<Longrightarrow> \<forall>f\<in>set (files s). contiguous f"
proof (induction rule: reachable.induct)
  case (initial s)
  then show ?case by simp
next
  case (upload s e req)
  from uploadFile_files [of P e req s] show ?case
  proof
    assume "files (snd (uploadFile P e req s)) = files s"
    with upload.IH show ?thesis by simp
  next
    assume "\<exists>doc. files (snd (uploadFile P e req s)) = files s @ [doc]
       \<and> map versionNumber (versions doc) = [1]"
    then obtain doc where d: "files (snd (uploadFile P e req s)) = files s @ [doc]"
      and one: "map versionNumber (versions doc) = [1]"
      by auto
    from one have "contiguous doc"
      unfolding contiguous_def by (rule contiguous_single)
    with d upload.IH show ?thesis by simp
  qed
next
  case (append s e areq)
  from addNewVersion_files [of P e areq s] show ?case
  proof
    assume "files (snd (addNewVersion P e areq s)) = files s"
    with append.IH show ?thesis by simp
  next
    assume "\<exists>i fm'. i < length (files s) \<and> files (snd (addNewVersion P e areq s)) = (files s)[i := fm']
       \<and> map versionNumber (versions fm') =
           map versionNumber (versions (files s ! i)) @ [int (length (versions (files s ! i))) + 1]"
    then obtain i fm' where i: "i < length (files s)"
      and upd: "files (snd (addNewVersion P e areq s)) = (files s)[i := fm']"
      and vs: "map versionNumber (versions fm') =
           map versionNumber (versions (files s ! i)) @ [int (length (versions (files s ! i))) + 1]"
      by blast
    from append.IH i have old: "contiguous (files s ! i)" by simp
    from old vs have new: "contiguous fm'"
      unfolding contiguous_def by (rule contiguous_snoc)
    show ?thesis
    proof
      fix f assume "f \<in> set (files (snd (addNewVersion P e areq s)))"
      with upd have "f \<in> insert fm' (set (files s))"
        using set_update_subset_insert by fastforce
      with new append.IH show "contiguous f" by auto
    qed
  qed
next
  case (delete s e dreq)
  from deleteFile_files [of e dreq s] show ?case
  proof
    assume "files (snd (deleteFile e dreq s)) = files s"
    with delete.IH show ?thesis by simp
  next
    assume "\<exists>i fm'. i < length (files s) \<and> files (snd (deleteFile e dreq s)) = (files s)[i := fm']
       \<and> versions fm' = versions (files s ! i)"
    then obtain i fm' where i: "i < length (files s)"
      and upd: "files (snd (deleteFile e dreq s)) = (files s)[i := fm']"
      and vs: "versions fm' = versions (files s ! i)"
      by blast
    from delete.IH i have "contiguous (files s ! i)" by simp
    with vs have new: "contiguous fm'" by (simp add: contiguous_def)
    show ?thesis
    proof
      fix f assume "f \<in> set (files (snd (deleteFile e dreq s)))"
      with upd have "f \<in> insert fm' (set (files s))"
        using set_update_subset_insert by fastforce
      with new delete.IH show "contiguous f" by auto
    qed
  qed
qed

section \<open>Unique identifiers\<close>

lemma findOne_Some_mem: "findOne p docs = Some (i, d) \<Longrightarrow> d \<in> set docs"
  by (auto dest: findOne_SomeD)

lemma findOne_Some_sat: "findOne p docs = Some (i, d) \<Longrightarrow> p d"
  by (auto dest: findOne_SomeD)

lemma uploadFile_not_created:
  assumes "\<nexists>fid n h a. fst (uploadFile P e req s) = Status201_Uploaded fid n h a"
  shows "files (snd (uploadFile P e req s)) = files s"
  using assms
  by (auto simp: uploadFile_def saveNew_def ipfs_uploadFile_def Let_def
      split: option.splits prod.splits if_splits)

lemma map_fileId_update:
  assumes "i < length docs" and "fileId d = fileId (docs ! i)"
  shows "map fileId (docs[i := d]) = map fileId docs"
  using assms by (simp add: map_update list_update_same_conv)

lemma uploadFile_distinct:
  assumes "distinct (map fileId (files s))"
  shows "distinct (map fileId (files (snd (uploadFile P e req s))))"
proof (cases "\<exists>fid n h a. fst (uploadFile P e req s) = Status201_Uploaded fid n h a")
  case False
  with uploadFile_not_created [of P e req s] assms show ?thesis by simp
next
  case True
  then obtain fid n h a where
    "uploadFile P e req s = (Status201_Uploaded fid n h a, snd (uploadFile P e req s))"
    by (metis prod.collapse)
  from uploadFile_created [OF this] obtain doc where
    "files (snd (uploadFile P e req s)) = files s @ [doc]" "fileId doc = fid"
    "fid \<notin> fileId ` set (files s)"
    by auto
  with assms show ?thesis by simp
qed

lemma addNewVersion_fileIds:
  "map fileId (files (snd (addNewVersion P e req s))) = map fileId (files s)"
proof (cases "\<exists>fid v. fst (addNewVersion P e req s) = Status201_VersionAdded fid v")
  case False
  then have "files (snd (addNewVersion P e req s)) = files s"
    by (auto simp: addNewVersion_def saveExisting_def ipfs_uploadFile_def addVersion_def Let_def
        split: option.splits prod.splits if_splits)
  then show ?thesis by simp
next
  case True
  then obtain fid v where
    "addNewVersion P e req s = (Status201_VersionAdded fid v, snd (addNewVersion P e req s))"
    by (metis prod.collapse)
  from addNewVersion_added [OF this] obtain i fm where
    f: "findOne (\<lambda>d. fileId d = av_fileId req \<and> isActive d) (files s) = Some (i, fm)"
    and u: "files (snd (addNewVersion P e req s)) =
              (files s)[i := (files (snd (addNewVersion P e req s)) ! i)]"
    and id: "fileId (files (snd (addNewVersion P e req s)) ! i) = fid" "fid = av_fileId req"
    by blast
  from findOne_SomeD [OF f] have i: "i < length (files s)"
    and "fileId (files s ! i) = av_fileId req"
    by auto
  with id have "fileId (files (snd (addNewVersion P e req s)) ! i) = fileId (files s ! i)"
    by simp
  from map_fileId_update [OF i this] u show ?thesis by simp
qed

lemma deleteFile_fileIds:
  "map fileId (files (snd (deleteFile e req s))) = map fileId (files s)"
proof (cases "\<exists>fid. fst (deleteFile e req s) = Status200_Deleted fid")
  case False
  then have "snd (deleteFile e req s) = s"
    by (rule deleteFile_unchanged)
  then show ?thesis by simp
next
  case True
  then obtain fid where "deleteFile e req s = (Status200_Deleted fid, snd (deleteFile e req s))"
    by (metis prod.collapse)
  from deleteFile_deleted [OF this] obtain i where i: "i < length (files s)"
    and u: "snd (deleteFile e req s) =
              s\<lparr> files := (files s)[i := (files s ! i)\<lparr> isActive := False, updatedAt := now e \<rparr>] \<rparr>"
    by blast
  have "map fileId ((files s)[i := (files s ! i)\<lparr> isActive := False, updatedAt := now e \<rparr>])
      = map fileId (files s)"
    by (rule map_fileId_update [OF i]) simp
  with u show ?thesis by simp
qed

lemma reachable_distinct:
  "reachable P s \<Longrightarrow> distinct (map fileId (files s))"
proof (induction rule: reachable.induct)
  case (initial s)
  then show ?case by simp
next
  case (upload s e req)
  then show ?case by (simp add: uploadFile_distinct)
next
  case (append s e areq)
  then show ?case by (simp add: addNewVersion_fileIds)
next
  case (delete s e dreq)
  then show ?case by (simp add: deleteFile_fileIds)
qed

lemma findOne_unique:
  assumes d: "distinct (map fileId docs)"
    and F: "F \<in> set docs" "p F"
    and p: "\<And>d. p d \<Longrightarrow> fileId d = fileId F"
  shows "\<exists>i. findOne p docs = Some (i, F) \<and> i < length docs \<and> docs ! i = F"
proof -
  from F findOne_None_iff [of p docs] obtain i G where f: "findOne p docs = Some (i, G)"
    by (cases "findOne p docs") auto
  from findOne_SomeD [OF f] have G: "G \<in> set docs" "p G" "i < length docs" "G = docs ! i"
    by auto
  from p [OF G(2)] have "fileId G = fileId F" .
  moreover from d have "inj_on fileId (set docs)"
    by (simp add: distinct_map)
  ultimately have "G = F"
    using G(1) F(1) by (auto dest: inj_onD)
  with f G show ?thesis by auto
qed

lemma no_active_after_delete:
  assumes d: "distinct (map fileId docs)" and i: "i < length docs"
    and F': "fileId F' = fileId (docs ! i)" "\<not> isActive F'"
  shows "\<forall>x\<in>set (docs[i := F']). \<not> (fileId x = fileId (docs ! i) \<and> isActive x)"
proof
  fix x assume "x \<in> set (docs[i := F'])"
  then obtain j where j: "j < length docs" "x = docs[i := F'] ! j"
    by (auto simp: in_set_conv_nth)
  show "\<not> (fileId x = fileId (docs ! i) \<and> isActive x)"
  proof (cases "j = i")
    case True
    with j i F' show ?thesis by simp
  next
    case False
    with j have x: "x = docs ! j" by simp
    have "(map fileId docs ! j = map fileId docs ! i) = (j = i)"
      by (rule nth_eq_iff_index_eq [OF d]) (simp_all add: j(1) i)
    with False j(1) i x show ?thesis by simp
  qed
qed

section \<open>The concrete run, step by step\<close>

lemma run_upload:
  "uploadFile stubPrims env0 reqHello state0 =
     (Status201_Uploaded idHello 1 ''41881291480'' ''Qm41881291480'', state1)"
  by code_simp

lemma run_append:
  "addNewVersion stubPrims env0 reqV2 state1 = (Status201_VersionAdded idHello version2, state2)"
  by code_simp

lemma reachable_state1: "reachable stubPrims state1"
proof -
  have "reachable stubPrims state0"
    by (rule reachable.initial) (simp add: state0_def)
  from reachable.upload [OF this, of env0 reqHello] show ?thesis
    by (simp add: run_upload)
qed

lemma reachable_state2: "reachable stubPrims state2"
  using reachable.append [OF reachable_state1, of env0 reqV2] by (simp add: run_append)

lemma uploadFile_created_id:
  assumes "uploadFile P e req s = (Status201_Uploaded fid n h a, s')"
    and "up_file req = Some f" and "up_owner req = Some ownr"
  shows "fid = generateFileId P e (originalname f) ownr"
  using assms
  by (auto simp: uploadFile_def saveNew_def ipfs_uploadFile_def Let_def
      split: option.splits prod.splits if_splits)

lemma find_file1:
  "findOne (\<lambda>d. fileId d = idHello \<and> isActive d) [file1] = Some (0, file1)"
  by (simp add: findOne_def file1_def)

lemma parseInt_one: "parseInt ''1'' = Number 1"
  by code_simp

lemma getVersion_file1: "getVersion file1 (Number 1) = Some version1"
  by (simp add: getVersion_def parseIntNum_def file1_def version1_def)

lemma generateFileId_env0: "generateFileId stubPrims env0 ''greeting.txt'' ''alice'' = idHello"
  by code_simp

lemma generateFileId_envRetry:
  "generateFileId stubPrims envRetry ''greeting.txt'' ''alice'' = ''greeting.txt_alice_1700_ffffffff''"
  by code_simp

section \<open>Resolving a version\<close>

lemma parseIntNum_small: "\<bar>k\<bar> < 10 ^ 21 \<Longrightarrow> parseIntNum (Number k) = Number k"
  by (simp add: parseIntNum_def)

lemma getVersion_Number:
  assumes "\<bar>k\<bar> < 10 ^ 21"
  shows "getVersion F (Number k) = List.find (\<lambda>v. versionNumber v = k) (versions F)"
  using assms by (simp add: getVersion_def parseIntNum_small)


lemma contiguous_nth:
  assumes "contiguous F" and "j < length (versions F)"
  shows "versionNumber (versions F ! j) = int j + 1"
proof -
  from assms(2) have "versionNumber (versions F ! j) = map versionNumber (versions F) ! j"
    by simp
  also from assms(1) have "\<dots> = map int [1..<Suc (length (versions F))] ! j"
    by (simp add: contiguous_def)
  also from assms(2) have "\<dots> = int j + 1"
    by (simp del: upt_Suc)
  finally show ?thesis .
qed

lemma contiguous_last_number:
  assumes c: "contiguous F" and ne: "versions F \<noteq> []"
  shows "versionNumber (versions F ! (length (versions F) - 1)) = int (length (versions F))"
proof -
  from ne obtain m where m: "length (versions F) = Suc m"
    by (cases "versions F") auto
  then have "m < length (versions F)" by simp
  from contiguous_nth [OF c this] m show ?thesis by simp
qed

lemma contiguous_find_last:
  assumes c: "contiguous F" and ne: "versions F \<noteq> []"
  shows "List.find (\<lambda>v. versionNumber v = int (length (versions F))) (versions F) =
           Some (versions F ! (length (versions F) - 1))"
proof -
  let ?n = "length (versions F)"
  from ne have n: "?n - 1 < ?n" by simp
  have "versionNumber (versions F ! (?n - 1)) = int ?n"
    by (rule contiguous_last_number [OF c ne])
  moreover have "\<forall>j<?n - 1. versionNumber (versions F ! j) \<noteq> int ?n"
  proof (intro allI impI)
    fix j assume j: "j < ?n - 1"
    then have "j < ?n" by simp
    from contiguous_nth [OF c this] j show "versionNumber (versions F ! j) \<noteq> int ?n"
      by simp
  qed
  ultimately show ?thesis
    using n unfolding find_Some_iff by blast
qed













section \<open>Version numbers\<close>

text \<open>
  Claim C1. In every state the handlers can reach, the version numbers of every document
  are exactly \<open>1, ..., n\<close> for its \<open>n\<close> versions, in order. An upload that succeeds stores
  a document with the single version 1, and an append that succeeds gives the new version
  the number (count of versions before) + 1 and puts it last.
\<close>

theorem version_numbers_contiguous:
  "(reachable P s \<longrightarrow>
      (\<forall>f\<in>set (files s).
          map versionNumber (versions f) = map int [1..<Suc (length (versions f))]))
   \<and> (uploadFile P e req s0 = (Status201_Uploaded fid n h a, s0') \<longrightarrow>
        n = 1 \<and> (\<exists>doc. files s0' = files s0 @ [doc] \<and> fileId doc = fid
                    \<and> map versionNumber (versions doc) = [1]))
   \<and> (addNewVersion P e' areq s1 = (Status201_VersionAdded fid' v, s1') \<longrightarrow>
        (\<exists>i fm. findOne (\<lambda>d. fileId d = av_fileId areq \<and> isActive d) (files s1) = Some (i, fm)
            \<and> versionNumber v = int (length (versions fm)) + 1
            \<and> versions (files s1' ! i) = versions fm @ [v]))"
proof (intro conjI impI)
  assume "reachable P s"
  from reachable_contiguous [OF this]
  show "\<forall>f\<in>set (files s).
          map versionNumber (versions f) = map int [1..<Suc (length (versions f))]"
    by (simp add: contiguous_def)
next
  assume u: "uploadFile P e req s0 = (Status201_Uploaded fid n h a, s0')"
  from uploadFile_created [OF u] show "n = 1" by simp
  from uploadFile_created [OF u]
  show "\<exists>doc. files s0' = files s0 @ [doc] \<and> fileId doc = fid
          \<and> map versionNumber (versions doc) = [1]"
    by auto
next
  assume "addNewVersion P e' areq s1 = (Status201_VersionAdded fid' v, s1')"
  from addNewVersion_added [OF this]
  show "\<exists>i fm. findOne (\<lambda>d. fileId d = av_fileId areq \<and> isActive d) (files s1) = Some (i, fm)
            \<and> versionNumber v = int (length (versions fm)) + 1
            \<and> versions (files s1' ! i) = versions fm @ [v]"
    by auto
qed

theorem version_numbers_contiguous_witness:
  "map versionNumber (versions (file1\<lparr> versions := [version1, version2] \<rparr>)) = [1, 2]
   \<and> (\<exists>doc. files state1 = files state0 @ [doc] \<and> fileId doc = idHello
          \<and> map versionNumber (versions doc) = [1])
   \<and> versionNumber version2 = int (length (versions file1)) + 1"
proof -
  note T = version_numbers_contiguous [of stubPrims state2 env0 reqHello state0
      idHello 1 "''41881291480''" "''Qm41881291480''" state1 env0 reqV2 state1 idHello version2 state2]
  have m: "file1\<lparr> versions := [version1, version2] \<rparr> \<in> set (files state2)"
    by (simp add: state2_def)
  have "\<forall>f\<in>set (files state2).
          map versionNumber (versions f) = map int [1..<Suc (length (versions f))]"
    using conjunct1 [OF T] reachable_state2 by (rule mp)
  from bspec [OF this m]
  have "map versionNumber (versions (file1\<lparr> versions := [version1, version2] \<rparr>)) =
          map int [1..<Suc (length (versions (file1\<lparr> versions := [version1, version2] \<rparr>)))]" .
  then have a: "map versionNumber (versions (file1\<lparr> versions := [version1, version2] \<rparr>)) = [1, 2]"
    by (simp add: upt_rec)
  have b: "\<exists>doc. files state1 = files state0 @ [doc] \<and> fileId doc = idHello
          \<and> map versionNumber (versions doc) = [1]"
    using conjunct1 [OF conjunct2 [OF T]] run_upload by simp
  have "\<exists>i fm. findOne (\<lambda>d. fileId d = av_fileId reqV2 \<and> isActive d) (files state1) = Some (i, fm)
            \<and> versionNumber version2 = int (length (versions fm)) + 1
            \<and> versions (files state2 ! i) = versions fm @ [version2]"
    using conjunct2 [OF conjunct2 [OF T]] run_append by (rule mp)
  then obtain i fm where
    f: "findOne (\<lambda>d. fileId d = av_fileId reqV2 \<and> isActive d) (files state1) = Some (i, fm)"
    and n: "versionNumber version2 = int (length (versions fm)) + 1"
    by auto
  have "findOne (\<lambda>d. fileId d = av_fileId reqV2 \<and> isActive d) (files state1) = Some (0, file1)"
    by (simp add: findOne_def state1_def reqV2_def file1_def)
  with f have "fm = file1" by simp
  with n have c: "versionNumber version2 = int (length (versions file1)) + 1" by simp
  from a b c show ?thesis by simp
qed

section \<open>Deduplication\<close>

text \<open>
  Claim C2. Take an upload request that carries a file and an owner, with the metadata
  store answering. If some active document has a version whose hash is the digest of the
  payload, \<open>uploadFile\<close> answers 409 with the identifier of such an active document, and
  the state is the one before: nothing is written to the content store, no document is
  added or changed. If no active document has the hash (inactive ones do not count), the
  answer is never this 409.
\<close>

theorem uploadFile_duplicate_content:
  assumes "up_file req = Some f" and "up_owner req = Some ownr" and "ownr \<noteq> []"
    and "dbReadOk e"
  shows "if \<exists>d\<in>set (files s). isActive d \<and> sha256 P (buffer f) \<in> sha256Hash ` set (versions d)
         then \<exists>d\<in>set (files s). isActive d
                \<and> sha256 P (buffer f) \<in> sha256Hash ` set (versions d)
                \<and> uploadFile P e req s =
                    (Status409_DuplicateContent (fileId d) (sha256 P (buffer f)), s)
         else \<forall>x y. fst (uploadFile P e req s) \<noteq> Status409_DuplicateContent x y"
proof -
  let ?h = "sha256 P (buffer f)"
  let ?p = "\<lambda>d. list_ex (\<lambda>v. sha256Hash v = ?h) (versions d) \<and> isActive d"
  have p: "?p d \<longleftrightarrow> isActive d \<and> ?h \<in> sha256Hash ` set (versions d)" for d
    by (force simp: list_ex_iff)
  show ?thesis
  proof (cases "findByHash ?h (files s)")
    case None
    then have no: "\<not> (\<exists>d\<in>set (files s). isActive d \<and> ?h \<in> sha256Hash ` set (versions d))"
      unfolding findByHash_def findOne_None_iff p by blast
    have "fst (uploadFile P e req s) \<noteq> Status409_DuplicateContent x y" for x y
      using assms None
      by (auto simp: uploadFile_def generateSHA256FromBuffer_def Let_def
          split: option.splits prod.splits if_splits)
    then have "\<forall>x y. fst (uploadFile P e req s) \<noteq> Status409_DuplicateContent x y"
      by simp
    then show ?thesis
      unfolding if_not_P [OF no] .
  next
    case (Some r)
    then obtain i d where f: "findByHash ?h (files s) = Some (i, d)"
      by (cases r) simp
    from f [unfolded findByHash_def]
    have "d \<in> set (files s)" and "?p d"
      by (rule findOne_Some_mem, rule findOne_Some_sat)
    with p [of d]
    have d: "d \<in> set (files s)" "isActive d" "?h \<in> sha256Hash ` set (versions d)"
      by simp_all
    have "uploadFile P e req s = (Status409_DuplicateContent (fileId d) ?h, s)"
      using assms f by (simp add: uploadFile_def generateSHA256FromBuffer_def)
    with d have ex: "\<exists>d\<in>set (files s). isActive d
                \<and> ?h \<in> sha256Hash ` set (versions d)
                \<and> uploadFile P e req s = (Status409_DuplicateContent (fileId d) ?h, s)"
      by (intro bexI [of _ d]) simp_all
    then have dup: "\<exists>d\<in>set (files s). isActive d \<and> ?h \<in> sha256Hash ` set (versions d)"
      by (elim bexE) (intro bexI, simp_all)
    from ex show ?thesis
      unfolding if_P [OF dup] .
  qed
qed

theorem uploadFile_duplicate_content_witness:
  "uploadFile stubPrims env0 reqCopy state1 =
     (Status409_DuplicateContent idHello ''41881291480'', state1)"
proof -
  let ?f = "\<lparr> buffer = helloWorld, originalname = ''copy.txt'',
              mimetype = ''text/plain'', size_f = 11 \<rparr>"
  have h: "sha256 stubPrims (buffer ?f) = ''41881291480''"
    by code_simp
  have fs: "files state1 = [file1]"
    by (simp add: state1_def)
  have dup: "\<exists>d\<in>set (files state1). isActive d
      \<and> sha256 stubPrims (buffer ?f) \<in> sha256Hash ` set (versions d)"
    unfolding h fs by (simp add: file1_def version1_def)
  have "up_file reqCopy = Some ?f" "up_owner reqCopy = Some ''bob''" "''bob'' \<noteq> []" "dbReadOk env0"
    by (simp_all add: reqCopy_def env0_def)
  from uploadFile_duplicate_content [OF this, of state1 stubPrims, unfolded if_P [OF dup]]
  obtain d where "d \<in> set (files state1)"
    and "uploadFile stubPrims env0 reqCopy state1 =
           (Status409_DuplicateContent (fileId d) (sha256 stubPrims (buffer ?f)), state1)"
    by auto
  then show ?thesis
    unfolding h fs by (simp add: file1_def)
qed

text \<open>
  Claim C3. Take a collection in which \<open>fileId\<close> is unique, as the index keeps it (every
  reachable state is one), an active document \<open>F\<close> in it, and a request to append to \<open>F\<close>
  that carries a file and \<open>uploadedBy\<close>, with the metadata store answering. If the digest
  of the payload is the hash of a version of \<open>F\<close>, \<open>addNewVersion\<close> answers 409 with the
  number of the first such version, and the state is the one before: no write to the
  content store, and \<open>F\<close> keeps its versions.
\<close>

theorem addNewVersion_duplicate_version:
  assumes "av_file req = Some f" and "av_uploadedBy req = Some uploader" and "uploader \<noteq> []"
    and "dbReadOk e"
    and "distinct (map fileId (files s))"
    and "F \<in> set (files s)" and "isActive F" and "fileId F = av_fileId req"
    and "v \<in> set (versions F)" and "sha256Hash v = sha256 P (buffer f)"
  shows "\<exists>w. List.find (\<lambda>x. sha256Hash x = sha256 P (buffer f)) (versions F) = Some w
           \<and> w \<in> set (versions F) \<and> sha256Hash w = sha256 P (buffer f)
           \<and> addNewVersion P e req s = (Status409_DuplicateVersion (versionNumber w), s)"
proof -
  let ?h = "sha256 P (buffer f)"
  from assms(5) have "distinct (map fileId (files s))" .
  from findOne_unique [OF this, of F "\<lambda>d. fileId d = av_fileId req \<and> isActive d"] assms(6-8)
  obtain i where f: "findOne (\<lambda>d. fileId d = av_fileId req \<and> isActive d) (files s) = Some (i, F)"
    by auto
  from assms(9,10) obtain w where w: "List.find (\<lambda>x. sha256Hash x = ?h) (versions F) = Some w"
    by (cases "List.find (\<lambda>x. sha256Hash x = ?h) (versions F)") (auto simp: find_None_iff)
  then have "w \<in> set (versions F)" "sha256Hash w = ?h"
    by (auto simp: find_Some_iff)
  moreover have "addNewVersion P e req s = (Status409_DuplicateVersion (versionNumber w), s)"
    using assms(1-4) f w by (simp add: addNewVersion_def generateSHA256FromBuffer_def)
  ultimately show ?thesis using w by simp
qed

theorem addNewVersion_duplicate_version_witness:
  "addNewVersion stubPrims env0 reqV2 state2 = (Status409_DuplicateVersion 2, state2)"
proof -
  let ?F = "file1\<lparr> versions := [version1, version2] \<rparr>"
  have h: "sha256 stubPrims (buffer greetingV2) = ''41881291480280''"
    by code_simp
  have a: "av_file reqV2 = Some greetingV2" "av_uploadedBy reqV2 = Some ''alice''"
    "''alice'' \<noteq> []" "dbReadOk env0"
    by (simp_all add: reqV2_def env0_def)
  have b: "?F \<in> set (files state2)" "isActive ?F" "fileId ?F = av_fileId reqV2"
    "version2 \<in> set (versions ?F)" "sha256Hash version2 = sha256 stubPrims (buffer greetingV2)"
    unfolding h by (simp_all add: state2_def file1_def reqV2_def version2_def)
  have dist: "distinct (map fileId (files state2))"
    using reachable_state2 by (rule reachable_distinct)
  from addNewVersion_duplicate_version [OF a dist b]
  obtain w where w: "List.find (\<lambda>x. sha256Hash x = sha256 stubPrims (buffer greetingV2)) (versions ?F) = Some w"
    and r: "addNewVersion stubPrims env0 reqV2 state2 = (Status409_DuplicateVersion (versionNumber w), state2)"
    by auto
  have "List.find (\<lambda>x. sha256Hash x = sha256 stubPrims (buffer greetingV2)) (versions ?F) = Some version2"
    unfolding h by (simp add: version1_def version2_def)
  with w have "w = version2" by simp
  with r show ?thesis by (simp add: version2_def)
qed

section \<open>Appends that overlap\<close>





lemma trim_alice: "trim ''alice'' = ''alice''"
  by code_simp






lemma run_sequence:
  "appendAll stubPrims [(env0, reqV2), (env0, reqV3)] state1 =
     ([Status201_VersionAdded idHello version2, Status201_VersionAdded idHello version3], state3)"
  by code_simp




section \<open>Soft delete\<close>

lemma softDelete_missing:
  assumes "dbReadOk e"
    and "\<not> (\<exists>d\<in>set (files s). fileId d = trim fid \<and> ownerIs (owner d) \<and> isActive d)"
  shows "softDelete e fid ownerIs s = (Status404 ''File not found or access denied'', s)"
proof -
  from assms(2)
  have "findOne (\<lambda>d. fileId d = trim fid \<and> ownerIs (owner d) \<and> isActive d) (files s) = None"
    by (simp add: findOne_None_iff)
  with assms(1) show ?thesis by (simp add: softDelete_def)
qed

lemma softDelete_found:
  assumes r: "dbReadOk e" and w: "dbWriteOk e"
    and dist: "distinct (map fileId (files s))"
    and F: "F \<in> set (files s)" "fileId F = trim fid" "ownerIs (owner F)" "isActive F"
  shows "\<exists>i<length (files s). files s ! i = F
           \<and> softDelete e fid ownerIs s =
               (Status200_Deleted fid,
                s\<lparr> files := (files s)[i := F\<lparr> isActive := False, updatedAt := now e \<rparr>] \<rparr>)
           \<and> (\<forall>x\<in>set ((files s)[i := F\<lparr> isActive := False, updatedAt := now e \<rparr>]).
                 \<not> (fileId x = trim fid \<and> isActive x))"
proof -
  let ?p = "\<lambda>d. fileId d = trim fid \<and> ownerIs (owner d) \<and> isActive d"
  from F have pF: "?p F" by simp
  have "\<exists>i. findOne ?p (files s) = Some (i, F) \<and> i < length (files s) \<and> files s ! i = F"
    using dist F(1) pF
  proof (rule findOne_unique)
    fix d assume "?p d"
    with F(2) show "fileId d = fileId F" by simp
  qed
  then obtain i where f: "findOne ?p (files s) = Some (i, F)" and i: "i < length (files s)"
    and Fi: "files s ! i = F"
    by blast
  let ?F' = "F\<lparr> isActive := False, updatedAt := now e \<rparr>"
  from r w f Fi have first: "softDelete e fid ownerIs s =
      (Status200_Deleted fid, s\<lparr> files := (files s)[i := ?F'] \<rparr>)"
    by (simp add: softDelete_def saveExisting_def)
  have "\<forall>x\<in>set ((files s)[i := ?F']). \<not> (fileId x = fileId (files s ! i) \<and> isActive x)"
    by (rule no_active_after_delete [OF dist i]) (simp_all add: Fi)
  with Fi F(2) have gone: "\<forall>x\<in>set ((files s)[i := ?F']). \<not> (fileId x = trim fid \<and> isActive x)"
    by simp
  from i Fi first gone show ?thesis by blast
qed

lemma trim_idHello: "trim idHello = idHello"
  by code_simp

lemma trim_alice_padded: "trim ''alice '' = ''alice''"
  by code_simp

lemma trim_bob: "trim ''bob'' = ''bob''"
  by code_simp

lemma delete_padded:
  "deleteFile env0 (reqDelete (Text ''alice '')) state1 = (Status200_Deleted idHello, state1Deleted)"
  by code_simp

text \<open>
  Claim C6, as the code has it. A request whose owner is missing, falsy or the empty
  string is answered 400 before any lookup. The filter of the lookup is cast by the
  schema, which trims its strings: with a non-empty string as claimed owner and the
  metadata store answering, \<open>deleteFile\<close> answers the same 404 and changes nothing
  whenever no active document has the trimmed identifier and the trimmed claimed owner,
  so a wrong owner and a missing file look alike. In a collection with unique \<open>fileId\<close>,
  for an active document with that identifier and that owner and a write that goes
  through, the answer is 200, the stored document has \<open>isActive = False\<close>, and the same
  request on the new state is answered 404. A claimed owner that is an object of query
  operators is not compared at all: the document is deleted when its owner meets the
  condition. A value that the store cannot cast is answered 500.
\<close>

theorem deleteFile_owner_checked:
  "(del_owner req = Falsy \<or> del_owner req = Text [] \<longrightarrow>
      deleteFile e req s = (Status400 ''Owner verification required'', s))
   \<and> (del_owner req = Text ownr \<and> ownr \<noteq> [] \<and> dbReadOk e
        \<and> \<not> (\<exists>d\<in>set (files s).
                fileId d = trim (del_fileId req) \<and> owner d = trim ownr \<and> isActive d) \<longrightarrow>
      deleteFile e req s = (Status404 ''File not found or access denied'', s))
   \<and> (del_owner req = Text ownr \<and> ownr \<noteq> [] \<and> dbReadOk e \<and> dbWriteOk e \<and> dbReadOk e'
        \<and> distinct (map fileId (files s))
        \<and> F \<in> set (files s) \<and> fileId F = trim (del_fileId req) \<and> owner F = trim ownr
        \<and> isActive F \<longrightarrow>
      (\<exists>i<length (files s). files s ! i = F
         \<and> deleteFile e req s =
             (Status200_Deleted (del_fileId req),
              s\<lparr> files := (files s)[i := F\<lparr> isActive := False, updatedAt := now e \<rparr>] \<rparr>)
         \<and> deleteFile e' req (s\<lparr> files := (files s)[i := F\<lparr> isActive := False, updatedAt := now e \<rparr>] \<rparr>) =
             (Status404 ''File not found or access denied'',
              s\<lparr> files := (files s)[i := F\<lparr> isActive := False, updatedAt := now e \<rparr>] \<rparr>)))
   \<and> (del_owner req = Operator matches \<and> dbReadOk e \<and> dbWriteOk e
        \<and> distinct (map fileId (files s))
        \<and> F \<in> set (files s) \<and> fileId F = trim (del_fileId req) \<and> matches (owner F)
        \<and> isActive F \<longrightarrow>
      (\<exists>i<length (files s). files s ! i = F
         \<and> deleteFile e req s =
             (Status200_Deleted (del_fileId req),
              s\<lparr> files := (files s)[i := F\<lparr> isActive := False, updatedAt := now e \<rparr>] \<rparr>)))
   \<and> (del_owner req = Uncastable \<longrightarrow>
        deleteFile e req s = (Status500 ''Failed to delete file'', s))"
proof (intro conjI impI)
  assume "del_owner req = Falsy \<or> del_owner req = Text []"
  then show "deleteFile e req s = (Status400 ''Owner verification required'', s)"
    by (auto simp: deleteFile_def)
next
  assume a: "del_owner req = Text ownr \<and> ownr \<noteq> [] \<and> dbReadOk e
        \<and> \<not> (\<exists>d\<in>set (files s).
                fileId d = trim (del_fileId req) \<and> owner d = trim ownr \<and> isActive d)"
  then have "softDelete e (del_fileId req) (\<lambda>stored. stored = trim ownr) s
      = (Status404 ''File not found or access denied'', s)"
    by (intro softDelete_missing) simp_all
  with a show "deleteFile e req s = (Status404 ''File not found or access denied'', s)"
    by (simp add: deleteFile_def)
next
  assume a: "del_owner req = Text ownr \<and> ownr \<noteq> [] \<and> dbReadOk e \<and> dbWriteOk e \<and> dbReadOk e'
        \<and> distinct (map fileId (files s))
        \<and> F \<in> set (files s) \<and> fileId F = trim (del_fileId req) \<and> owner F = trim ownr
        \<and> isActive F"
  then have eq: "\<And>e s. deleteFile e req s
      = softDelete e (del_fileId req) (\<lambda>stored. stored = trim ownr) s"
    by (simp add: deleteFile_def)
  from a have "\<exists>i<length (files s). files s ! i = F
           \<and> softDelete e (del_fileId req) (\<lambda>stored. stored = trim ownr) s =
               (Status200_Deleted (del_fileId req),
                s\<lparr> files := (files s)[i := F\<lparr> isActive := False, updatedAt := now e \<rparr>] \<rparr>)
           \<and> (\<forall>x\<in>set ((files s)[i := F\<lparr> isActive := False, updatedAt := now e \<rparr>]).
                 \<not> (fileId x = trim (del_fileId req) \<and> isActive x))"
    by (intro softDelete_found) simp_all
  then obtain i where i: "i < length (files s)" and Fi: "files s ! i = F"
    and first: "softDelete e (del_fileId req) (\<lambda>stored. stored = trim ownr) s =
               (Status200_Deleted (del_fileId req),
                s\<lparr> files := (files s)[i := F\<lparr> isActive := False, updatedAt := now e \<rparr>] \<rparr>)"
    and gone: "\<forall>x\<in>set ((files s)[i := F\<lparr> isActive := False, updatedAt := now e \<rparr>]).
                 \<not> (fileId x = trim (del_fileId req) \<and> isActive x)"
    by blast
  let ?s' = "s\<lparr> files := (files s)[i := F\<lparr> isActive := False, updatedAt := now e \<rparr>] \<rparr>"
  from a have r': "dbReadOk e'" by simp
  from gone have "\<not> (\<exists>d\<in>set (files ?s').
      fileId d = trim (del_fileId req) \<and> (\<lambda>stored. stored = trim ownr) (owner d) \<and> isActive d)"
    by simp
  with r' have second: "softDelete e' (del_fileId req) (\<lambda>stored. stored = trim ownr) ?s'
      = (Status404 ''File not found or access denied'', ?s')"
    by (rule softDelete_missing)
  from i Fi first second
  show "\<exists>i<length (files s). files s ! i = F
         \<and> deleteFile e req s =
             (Status200_Deleted (del_fileId req),
              s\<lparr> files := (files s)[i := F\<lparr> isActive := False, updatedAt := now e \<rparr>] \<rparr>)
         \<and> deleteFile e' req (s\<lparr> files := (files s)[i := F\<lparr> isActive := False, updatedAt := now e \<rparr>] \<rparr>) =
             (Status404 ''File not found or access denied'',
              s\<lparr> files := (files s)[i := F\<lparr> isActive := False, updatedAt := now e \<rparr>] \<rparr>)"
    unfolding eq by blast
next
  assume a: "del_owner req = Operator matches \<and> dbReadOk e \<and> dbWriteOk e
        \<and> distinct (map fileId (files s))
        \<and> F \<in> set (files s) \<and> fileId F = trim (del_fileId req) \<and> matches (owner F)
        \<and> isActive F"
  then have eq: "deleteFile e req s = softDelete e (del_fileId req) matches s"
    by (simp add: deleteFile_def)
  from a have "\<exists>i<length (files s). files s ! i = F
           \<and> softDelete e (del_fileId req) matches s =
               (Status200_Deleted (del_fileId req),
                s\<lparr> files := (files s)[i := F\<lparr> isActive := False, updatedAt := now e \<rparr>] \<rparr>)
           \<and> (\<forall>x\<in>set ((files s)[i := F\<lparr> isActive := False, updatedAt := now e \<rparr>]).
                 \<not> (fileId x = trim (del_fileId req) \<and> isActive x))"
    by (intro softDelete_found) simp_all
  then show "\<exists>i<length (files s). files s ! i = F
         \<and> deleteFile e req s =
             (Status200_Deleted (del_fileId req),
              s\<lparr> files := (files s)[i := F\<lparr> isActive := False, updatedAt := now e \<rparr>] \<rparr>)"
    unfolding eq by blast
next
  assume "del_owner req = Uncastable"
  then show "deleteFile e req s = (Status500 ''Failed to delete file'', s)"
    by (simp add: deleteFile_def)
qed

theorem deleteFile_owner_checked_witness:
  "deleteFile env0 (reqDelete Falsy) state1 = (Status400 ''Owner verification required'', state1)
   \<and> deleteFile env0 (reqDelete (Text ''bob'')) state1 =
        (Status404 ''File not found or access denied'', state1)
   \<and> deleteFile env0 (reqDelete (Text ''alice'')) state1 = (Status200_Deleted idHello, state1Deleted)
   \<and> deleteFile env0 (reqDelete (Text ''alice'')) state1Deleted =
        (Status404 ''File not found or access denied'', state1Deleted)
   \<and> deleteFile env0 (reqDelete notBob) state1 = (Status200_Deleted idHello, state1Deleted)
   \<and> deleteFile env0 (reqDelete Uncastable) state1 = (Status500 ''Failed to delete file'', state1)"
proof -
  note T = deleteFile_owner_checked [where e = env0 and s = state1 and e' = env0 and F = file1]
  have dist: "distinct (map fileId (files state1))"
    using reachable_state1 by (rule reachable_distinct)
  have fs: "files state1 = [file1]" by (simp add: state1_def)
  have id: "trim (del_fileId (reqDelete v)) = fileId file1" for v
    using trim_idHello by (simp add: reqDelete_def file1_def)
  have "del_owner (reqDelete Falsy) = Falsy \<or> del_owner (reqDelete Falsy) = Text []"
    by (simp add: reqDelete_def)
  with conjunct1 [OF T [where req = "reqDelete Falsy"]]
  have a: "deleteFile env0 (reqDelete Falsy) state1 = (Status400 ''Owner verification required'', state1)"
    by (rule mp)
  have "del_owner (reqDelete (Text ''bob'')) = Text ''bob'' \<and> ''bob'' \<noteq> [] \<and> dbReadOk env0
        \<and> \<not> (\<exists>d\<in>set (files state1). fileId d = trim (del_fileId (reqDelete (Text ''bob'')))
                \<and> owner d = trim ''bob'' \<and> isActive d)"
    unfolding fs trim_bob by (simp add: reqDelete_def env0_def file1_def)
  with conjunct1 [OF conjunct2 [OF T [where req = "reqDelete (Text ''bob'')" and ownr = "''bob''"]]]
  have b: "deleteFile env0 (reqDelete (Text ''bob'')) state1 =
      (Status404 ''File not found or access denied'', state1)"
    by (rule mp)
  have "del_owner (reqDelete (Text ''alice'')) = Text ''alice'' \<and> ''alice'' \<noteq> [] \<and> dbReadOk env0
        \<and> dbWriteOk env0 \<and> dbReadOk env0 \<and> distinct (map fileId (files state1))
        \<and> file1 \<in> set (files state1) \<and> fileId file1 = trim (del_fileId (reqDelete (Text ''alice'')))
        \<and> owner file1 = trim ''alice'' \<and> isActive file1"
    using dist unfolding fs id trim_alice by (simp add: reqDelete_def env0_def file1_def)
  with conjunct1 [OF conjunct2 [OF conjunct2
        [OF T [where req = "reqDelete (Text ''alice'')" and ownr = "''alice''"]]]]
  have "\<exists>i<length (files state1). files state1 ! i = file1
         \<and> deleteFile env0 (reqDelete (Text ''alice'')) state1 =
             (Status200_Deleted (del_fileId (reqDelete (Text ''alice''))),
              state1\<lparr> files := (files state1)[i := file1\<lparr> isActive := False, updatedAt := now env0 \<rparr>] \<rparr>)
         \<and> deleteFile env0 (reqDelete (Text ''alice''))
              (state1\<lparr> files := (files state1)[i := file1\<lparr> isActive := False, updatedAt := now env0 \<rparr>] \<rparr>) =
             (Status404 ''File not found or access denied'',
              state1\<lparr> files := (files state1)[i := file1\<lparr> isActive := False, updatedAt := now env0 \<rparr>] \<rparr>)"
    by (rule mp)
  then have c: "deleteFile env0 (reqDelete (Text ''alice'')) state1 = (Status200_Deleted idHello, state1Deleted)
    \<and> deleteFile env0 (reqDelete (Text ''alice'')) state1Deleted =
        (Status404 ''File not found or access denied'', state1Deleted)"
    unfolding fs by (simp add: state1Deleted_def reqDelete_def env0_def file1_def state1_def)
  have "del_owner (reqDelete notBob) = Operator (\<lambda>stored. stored \<noteq> ''bob'') \<and> dbReadOk env0
        \<and> dbWriteOk env0 \<and> distinct (map fileId (files state1))
        \<and> file1 \<in> set (files state1) \<and> fileId file1 = trim (del_fileId (reqDelete notBob))
        \<and> owner file1 \<noteq> ''bob'' \<and> isActive file1"
    using dist unfolding fs id by (simp add: reqDelete_def notBob_def env0_def file1_def)
  with conjunct1 [OF conjunct2 [OF conjunct2 [OF conjunct2
        [OF T [where req = "reqDelete notBob" and matches = "\<lambda>stored. stored \<noteq> ''bob''"]]]]]
  have "\<exists>i<length (files state1). files state1 ! i = file1
         \<and> deleteFile env0 (reqDelete notBob) state1 =
             (Status200_Deleted (del_fileId (reqDelete notBob)),
              state1\<lparr> files := (files state1)[i := file1\<lparr> isActive := False, updatedAt := now env0 \<rparr>] \<rparr>)"
    by (rule mp)
  then have d: "deleteFile env0 (reqDelete notBob) state1 = (Status200_Deleted idHello, state1Deleted)"
    unfolding fs by (simp add: state1Deleted_def reqDelete_def env0_def file1_def state1_def)
  have "del_owner (reqDelete Uncastable) = Uncastable"
    by (simp add: reqDelete_def)
  with conjunct2 [OF conjunct2 [OF conjunct2 [OF conjunct2 [OF T [where req = "reqDelete Uncastable"]]]]]
  have e: "deleteFile env0 (reqDelete Uncastable) state1 = (Status500 ''Failed to delete file'', state1)"
    by (rule mp)
  from a b c d e show ?thesis by simp
qed

text \<open>
  The claim as written fails twice on the state that holds the file of \<open>alice\<close>. For the
  empty claimed owner no active document has the owner \<open>""\<close>, and the answer is 400, not
  404. For the claimed owner \<open>"alice "\<close>, with a space at its end, no document has this
  stored owner, and the file is deleted.
\<close>

theorem deleteFile_empty_owner_counterexample:
  "files state1 = [file1] \<and> owner file1 = ''alice'' \<and> isActive file1
   \<and> deleteFile env0 (reqDelete (Text [])) state1 = (Status400 ''Owner verification required'', state1)
   \<and> deleteFile env0 (reqDelete (Text [])) state1 \<noteq> (Status404 ''File not found or access denied'', state1)
   \<and> owner file1 \<noteq> ''alice ''
   \<and> deleteFile env0 (reqDelete (Text ''alice '')) state1 = (Status200_Deleted idHello, state1Deleted)
   \<and> deleteFile env0 (reqDelete (Text ''alice '')) state1 \<noteq> (Status404 ''File not found or access denied'', state1)"
  using delete_padded by (simp add: state1_def file1_def deleteFile_def reqDelete_def)

section \<open>Integrity verification\<close>

text \<open>
  Claim C5. Once \<open>verifyFileIntegrity\<close> has found the document and resolved the version,
  its answer depends only on the fetch. If the bytes arrive, the answer is 200 with a
  result that carries the match flag (the digests compared in lower case), the size
  flag and the recomputed digest, whether they match or not. If the fetch fails, the
  answer is the 500 of the inner handler, which no other path sends. The state is
  unchanged in both cases.
\<close>

theorem verifyFileIntegrity_result:
  assumes "dbReadOk e"
    and "findOne (\<lambda>d. fileId d = fid \<and> isActive d) (files s) = Some (i, fm)"
    and "getVersion fm (parseInt sel) = Some v"
  shows "case ipfs_downloadFile e (ipfsHash v) s of
           None \<Rightarrow>
             verifyFileIntegrity P e fid sel s =
               (Status500_VerifyFetch fid (parseInt sel) (ipfsHash v), s)
         | Some buf \<Rightarrow>
             (\<exists>r. verifyFileIntegrity P e fid sel s = (Status200_Verified r, s)
                \<and> isValid r = (toLowerCase (sha256 P buf) = toLowerCase (sha256Hash v))
                \<and> sizesMatch r = (int (length buf) = fileSize v)
                \<and> actualHash r = sha256 P buf
                \<and> expectedHash r = sha256Hash v)"
  using assms
  by (simp add: verifyFileIntegrity_def verifyHash_def generateSHA256FromBuffer_def Let_def
      split: option.splits)

theorem verifyFileIntegrity_result_witness:
  "(\<exists>r. verifyFileIntegrity stubPrims env0 idHello ''1'' state1 = (Status200_Verified r, state1)
       \<and> isValid r \<and> sizesMatch r \<and> actualHash r = ''41881291480'')
   \<and> (\<exists>r. verifyFileIntegrity stubPrims env0 idHello ''1'' stateCorrupt =
              (Status200_Verified r, stateCorrupt)
       \<and> \<not> isValid r \<and> \<not> sizesMatch r \<and> actualHash r = ''41881291480280'')
   \<and> verifyFileIntegrity stubPrims envOffline idHello ''1'' state1 =
        (Status500_VerifyFetch idHello (Number 1) ''Qm41881291480'', state1)"
proof -
  have h1: "sha256 stubPrims helloWorld = ''41881291480''"
    by code_simp
  have h2: "sha256 stubPrims helloWorldV2 = ''41881291480280''"
    by code_simp
  have l1: "length helloWorld = 11" and l2: "length helloWorldV2 = 14"
    by (simp_all add: helloWorld_def helloWorldV2_def)
  have v: "getVersion file1 (parseInt ''1'') = Some version1"
    by (simp add: parseInt_one getVersion_file1)
  have f1: "findOne (\<lambda>d. fileId d = idHello \<and> isActive d) (files state1) = Some (0, file1)"
    by (simp add: state1_def find_file1)
  have f2: "findOne (\<lambda>d. fileId d = idHello \<and> isActive d) (files stateCorrupt) = Some (0, file1)"
    by (simp add: stateCorrupt_def state1_def find_file1)
  have d1: "ipfs_downloadFile env0 (ipfsHash version1) state1 = Some helloWorld"
    by (simp add: ipfs_downloadFile_def state1_def env0_def version1_def)
  have d2: "ipfs_downloadFile env0 (ipfsHash version1) stateCorrupt = Some helloWorldV2"
    by (simp add: ipfs_downloadFile_def stateCorrupt_def state1_def env0_def version1_def)
  have d3: "ipfs_downloadFile envOffline (ipfsHash version1) state1 = None"
    by (simp add: ipfs_downloadFile_def state1_def envOffline_def env0_def)
  have ok: "dbReadOk env0" "dbReadOk envOffline"
    by (simp_all add: env0_def envOffline_def)
  have lc: "toLowerCase ''41881291480'' = ''41881291480''"
    "toLowerCase ''41881291480280'' = ''41881291480280''"
    by code_simp+
  from verifyFileIntegrity_result [OF ok(1) f1 v, of stubPrims]
  have a: "\<exists>r. verifyFileIntegrity stubPrims env0 idHello ''1'' state1 = (Status200_Verified r, state1)
       \<and> isValid r \<and> sizesMatch r \<and> actualHash r = ''41881291480''"
    unfolding d1 by (auto simp: h1 l1 version1_def)
  from verifyFileIntegrity_result [OF ok(1) f2 v, of stubPrims]
  have b: "\<exists>r. verifyFileIntegrity stubPrims env0 idHello ''1'' stateCorrupt =
              (Status200_Verified r, stateCorrupt)
       \<and> \<not> isValid r \<and> \<not> sizesMatch r \<and> actualHash r = ''41881291480280''"
    unfolding d2 by (auto simp: h2 l2 lc version1_def)
  from verifyFileIntegrity_result [OF ok(2) f1 v, of stubPrims]
  have c: "verifyFileIntegrity stubPrims envOffline idHello ''1'' state1 =
        (Status500_VerifyFetch idHello (Number 1) ''Qm41881291480'', state1)"
    unfolding d3 by (simp add: parseInt_one version1_def)
  from a b c show ?thesis by simp
qed

section \<open>Identifier generation\<close>

text \<open>
  Claim C8, as the code has it. \<open>uploadFile\<close> draws the identifier once. An upload that
  succeeds stores a document under exactly that identifier, which no document had
  before, so identifiers stay pairwise distinct. If the identifier drawn is already
  taken, the unique index rejects the document: the answer is the general 500, after
  the bytes went to the content store, and the collection is unchanged. There is no
  second draw and no error of its own for this case.
\<close>

theorem uploadFile_single_id_generation:
  "(up_file req = Some f \<and> up_owner req = Some ownr
      \<and> uploadFile P e req s = (Status201_Uploaded fid n h a, s') \<longrightarrow>
        fid = generateFileId P e (originalname f) ownr
        \<and> fid \<notin> fileId ` set (files s)
        \<and> (\<exists>doc. files s' = files s @ [doc] \<and> fileId doc = fid))
   \<and> (up_file req = Some f \<and> up_owner req = Some ownr \<and> ownr \<noteq> [] \<and> dbReadOk e
        \<and> findByHash (sha256 P (buffer f)) (files s) = None
        \<and> ipfsConnected s \<and> ipfsOk e
        \<and> generateFileId P e (originalname f) ownr \<in> fileId ` set (files s) \<longrightarrow>
        uploadFile P e req s =
          (Status500 ''Failed to upload file'',
           s\<lparr> ipfsBlobs := (cid P (buffer f), buffer f) # ipfsBlobs s \<rparr>))
   \<and> (distinct (map fileId (files s)) \<longrightarrow>
        distinct (map fileId (files (snd (uploadFile P e req s)))))"
proof (intro conjI impI)
  assume a: "up_file req = Some f \<and> up_owner req = Some ownr
      \<and> uploadFile P e req s = (Status201_Uploaded fid n h a, s')"
  then have u: "uploadFile P e req s = (Status201_Uploaded fid n h a, s')" by simp
  from uploadFile_created_id [OF u] a
  show "fid = generateFileId P e (originalname f) ownr" by simp
  from uploadFile_created [OF u] show "fid \<notin> fileId ` set (files s)" by auto
  from uploadFile_created [OF u] show "\<exists>doc. files s' = files s @ [doc] \<and> fileId doc = fid"
    by auto
next
  assume "up_file req = Some f \<and> up_owner req = Some ownr \<and> ownr \<noteq> [] \<and> dbReadOk e
        \<and> findByHash (sha256 P (buffer f)) (files s) = None
        \<and> ipfsConnected s \<and> ipfsOk e
        \<and> generateFileId P e (originalname f) ownr \<in> fileId ` set (files s)"
  then show "uploadFile P e req s =
          (Status500 ''Failed to upload file'',
           s\<lparr> ipfsBlobs := (cid P (buffer f), buffer f) # ipfsBlobs s \<rparr>)"
    by (simp add: uploadFile_def generateSHA256FromBuffer_def ipfs_uploadFile_def saveNew_def
        newFileMetadata_def Let_def)
next
  assume "distinct (map fileId (files s))"
  then show "distinct (map fileId (files (snd (uploadFile P e req s))))"
    by (rule uploadFile_distinct)
qed

theorem uploadFile_single_id_generation_witness:
  "idHello = generateFileId stubPrims env0 ''greeting.txt'' ''alice''
   \<and> idHello \<notin> fileId ` set (files state0)
   \<and> uploadFile stubPrims env0 reqAgain state1 =
       (Status500 ''Failed to upload file'',
        state1\<lparr> ipfsBlobs := (cid stubPrims helloWorldV2, helloWorldV2) # ipfsBlobs state1 \<rparr>)
   \<and> distinct (map fileId (files state1))"
proof -
  note T = uploadFile_single_id_generation [of _ _ "''alice''" stubPrims env0]
  have "up_file reqHello = Some greeting \<and> up_owner reqHello = Some ''alice''
      \<and> uploadFile stubPrims env0 reqHello state0 =
          (Status201_Uploaded idHello 1 ''41881291480'' ''Qm41881291480'', state1)"
    using run_upload by (simp add: reqHello_def)
  with conjunct1 [OF T [of reqHello greeting state0 idHello 1 "''41881291480''" "''Qm41881291480''" state1]]
  have "idHello = generateFileId stubPrims env0 (originalname greeting) ''alice''
        \<and> idHello \<notin> fileId ` set (files state0)
        \<and> (\<exists>doc. files state1 = files state0 @ [doc] \<and> fileId doc = idHello)"
    by (rule mp)
  then have a: "idHello = generateFileId stubPrims env0 ''greeting.txt'' ''alice''"
    and b: "idHello \<notin> fileId ` set (files state0)"
    by (simp_all add: greeting_def)
  have h: "sha256 stubPrims (buffer greetingV2) = ''41881291480280''"
    by code_simp
  have nf: "findByHash (sha256 stubPrims (buffer greetingV2)) (files state1) = None"
    unfolding h by (simp add: findByHash_def findOne_def state1_def file1_def version1_def)
  have g: "generateFileId stubPrims env0 (originalname greetingV2) ''alice'' \<in> fileId ` set (files state1)"
    by (simp add: greetingV2_def generateFileId_env0 state1_def file1_def)
  have "up_file reqAgain = Some greetingV2 \<and> up_owner reqAgain = Some ''alice'' \<and> ''alice'' \<noteq> []
        \<and> dbReadOk env0 \<and> ipfsConnected state1 \<and> ipfsOk env0"
    by (simp add: reqAgain_def env0_def state1_def)
  with nf g have "up_file reqAgain = Some greetingV2 \<and> up_owner reqAgain = Some ''alice'' \<and> ''alice'' \<noteq> []
        \<and> dbReadOk env0
        \<and> findByHash (sha256 stubPrims (buffer greetingV2)) (files state1) = None
        \<and> ipfsConnected state1 \<and> ipfsOk env0
        \<and> generateFileId stubPrims env0 (originalname greetingV2) ''alice'' \<in> fileId ` set (files state1)"
    by simp
  with conjunct1 [OF conjunct2 [OF T [of reqAgain greetingV2 state1]]]
  have "uploadFile stubPrims env0 reqAgain state1 =
          (Status500 ''Failed to upload file'',
           state1\<lparr> ipfsBlobs := (cid stubPrims (buffer greetingV2), buffer greetingV2) # ipfsBlobs state1 \<rparr>)"
    by (rule mp)
  then have c: "uploadFile stubPrims env0 reqAgain state1 =
       (Status500 ''Failed to upload file'',
        state1\<lparr> ipfsBlobs := (cid stubPrims helloWorldV2, helloWorldV2) # ipfsBlobs state1 \<rparr>)"
    by (simp add: greetingV2_def)
  have "distinct (map fileId (files state0))" by (simp add: state0_def)
  with conjunct2 [OF conjunct2 [OF T [of reqHello _ state0]]]
  have "distinct (map fileId (files (snd (uploadFile stubPrims env0 reqHello state0))))"
    by (rule mp)
  then have d: "distinct (map fileId (files state1))"
    by (simp add: run_upload)
  from a b c d show ?thesis by simp
qed

text \<open>
  The retry of the specification would take the second candidate here; \<open>uploadFile\<close>
  fails on the first.
\<close>

theorem uploadFile_no_retry_counterexample:
  "spec_freshFileId (map fileId (files state1))
      [generateFileId stubPrims env0 ''greeting.txt'' ''alice'',
       generateFileId stubPrims envRetry ''greeting.txt'' ''alice''] =
     Some ''greeting.txt_alice_1700_ffffffff''
   \<and> uploadFile stubPrims env0 reqAgain state1 =
       (Status500 ''Failed to upload file'',
        state1\<lparr> ipfsBlobs := (''Qm41881291480280'', helloWorldV2) # ipfsBlobs state1 \<rparr>)"
proof -
  have "spec_freshFileId (map fileId (files state1))
      [generateFileId stubPrims env0 ''greeting.txt'' ''alice'',
       generateFileId stubPrims envRetry ''greeting.txt'' ''alice''] =
     Some ''greeting.txt_alice_1700_ffffffff''"
    unfolding generateFileId_env0 generateFileId_envRetry
    by (simp add: spec_freshFileId_def state1_def file1_def idHello_def)
  moreover have "uploadFile stubPrims env0 reqAgain state1 =
       (Status500 ''Failed to upload file'',
        state1\<lparr> ipfsBlobs := (''Qm41881291480280'', helloWorldV2) # ipfsBlobs state1 \<rparr>)"
    by code_simp
  ultimately show ?thesis by simp
qed

section \<open>Search\<close>

text \<open>
  The pieces of \<open>split\<close> are the stretches of the string between its separators: none
  holds a separator, and the pieces, each followed by one, make up the string followed
  by one.
\<close>

lemma split_pieces:
  "concat (map (\<lambda>p. p @ [sep]) (split sep s)) = s @ [sep]
   \<and> (\<forall>p\<in>set (split sep s). sep \<notin> set p) \<and> split sep s \<noteq> []"
proof (induction s)
  case Nil
  show ?case by simp
next
  case (Cons c cs)
  then obtain w ws where ws: "split sep cs = w # ws"
    by (cases "split sep cs") auto
  with Cons show ?case by auto
qed

lemma pageOf_reqSearch: "pageOf reqSearch = Number 1"
  by (simp add: pageOf_def reqSearch_def parseIntNum_def)

lemma limitOf_reqSearch: "limitOf reqSearch = Number 10"
  by (simp add: limitOf_def reqSearch_def parseIntNum_def)

lemma searchConditionsOf_reqSearch:
  "searchConditionsOf reqSearch =
     \<lparr> cond_isActive = True, cond_or = None, cond_owner = Some ''alice'',
       cond_tags = Some [''report'', ''draft''] \<rparr>"
  by code_simp

lemma stubQuery_tagged:
  "stubQuery \<lparr> cond_isActive = True, cond_or = None, cond_owner = Some ''alice'',
               cond_tags = Some [''report'', ''draft''] \<rparr>
     (Number 0) (Number 10) (files stateTagged) =
   Some ([file1\<lparr> tags := [''draft'', ''text''] \<rparr>], 1)"
  by code_simp

text \<open>
  Claim C9. \<open>searchFiles\<close> answers 400 "At least one search parameter is required" exactly
  when the text query, the owner and the tags are all missing or empty. With a filter
  populated it answers no 400 at all; when the store can be read, the answer is what
  the query engine returns for the conditions built from the request. These are: active
  documents only; the text and the owner as given, when given and not empty; and for a
  tags string that is not empty the list of its pieces between the commas, each
  trimmed, of which a document must carry one.
\<close>

theorem searchFiles_requires_a_filter:
  "(fst (searchFiles P e req s) = Status400 ''At least one search parameter is required''
      \<longleftrightarrow> \<not> truthy (sq_query req) \<and> \<not> truthy (sq_owner req) \<and> \<not> truthy (sq_tags req))
   \<and> (truthy (sq_query req) \<or> truthy (sq_owner req) \<or> truthy (sq_tags req) \<longrightarrow>
        (\<forall>m. fst (searchFiles P e req s) \<noteq> Status400 m))
   \<and> ((truthy (sq_query req) \<or> truthy (sq_owner req) \<or> truthy (sq_tags req)) \<and> dbReadOk e \<longrightarrow>
        searchFiles P e req s =
          (case runQuery P (searchConditionsOf req)
                  (jsTimes (jsMinus (pageOf req) (Number 1)) (limitOf req)) (limitOf req) (files s) of
             None \<Rightarrow> (Status500 ''Failed to search files'', s)
           | Some (found, totalCount) \<Rightarrow>
               (Status200_Search found totalCount (searchConditionsOf req), s)))
   \<and> cond_isActive (searchConditionsOf req)
   \<and> (cond_or (searchConditionsOf req) = (if truthy (sq_query req) then sq_query req else None))
   \<and> (cond_owner (searchConditionsOf req) = (if truthy (sq_owner req) then sq_owner req else None))
   \<and> (cond_tags (searchConditionsOf req) =
        (case sq_tags req of
           None \<Rightarrow> None
         | Some ts \<Rightarrow> if ts = [] then None else Some (map trim (split CHR '','' ts))))
   \<and> (\<forall>ts. concat (map (\<lambda>p. p @ '','') (split CHR '','' ts)) = ts @ '',''
           \<and> (\<forall>p\<in>set (split CHR '','' ts). CHR '','' \<notin> set p))"
proof (intro conjI)
  show "fst (searchFiles P e req s) = Status400 ''At least one search parameter is required''
      \<longleftrightarrow> \<not> truthy (sq_query req) \<and> \<not> truthy (sq_owner req) \<and> \<not> truthy (sq_tags req)"
    by (auto simp: searchFiles_def Let_def split: option.splits prod.splits)
  show "truthy (sq_query req) \<or> truthy (sq_owner req) \<or> truthy (sq_tags req) \<longrightarrow>
        (\<forall>m. fst (searchFiles P e req s) \<noteq> Status400 m)"
    by (auto simp: searchFiles_def Let_def split: option.splits prod.splits)
  show "(truthy (sq_query req) \<or> truthy (sq_owner req) \<or> truthy (sq_tags req)) \<and> dbReadOk e \<longrightarrow>
        searchFiles P e req s =
          (case runQuery P (searchConditionsOf req)
                  (jsTimes (jsMinus (pageOf req) (Number 1)) (limitOf req)) (limitOf req) (files s) of
             None \<Rightarrow> (Status500 ''Failed to search files'', s)
           | Some (found, totalCount) \<Rightarrow>
               (Status200_Search found totalCount (searchConditionsOf req), s))"
    by (auto simp: searchFiles_def Let_def split: option.splits prod.splits)
  show "cond_isActive (searchConditionsOf req)"
    by (simp add: searchConditionsOf_def)
  show "cond_or (searchConditionsOf req) = (if truthy (sq_query req) then sq_query req else None)"
    by (simp add: searchConditionsOf_def)
  show "cond_owner (searchConditionsOf req) = (if truthy (sq_owner req) then sq_owner req else None)"
    by (simp add: searchConditionsOf_def)
  show "cond_tags (searchConditionsOf req) =
        (case sq_tags req of
           None \<Rightarrow> None
         | Some ts \<Rightarrow> if ts = [] then None else Some (map trim (split CHR '','' ts)))"
    by (simp add: searchConditionsOf_def)
  show "\<forall>ts. concat (map (\<lambda>p. p @ '','') (split CHR '','' ts)) = ts @ '',''
           \<and> (\<forall>p\<in>set (split CHR '','' ts). CHR '','' \<notin> set p)"
    using split_pieces [of "CHR '',''"] by blast
qed

theorem searchFiles_requires_a_filter_witness:
  "fst (searchFiles stubPrims env0 reqSearchEmpty stateTagged) =
     Status400 ''At least one search parameter is required''
   \<and> searchFiles stubPrims env0 reqSearch stateTagged =
       (Status200_Search [file1\<lparr> tags := [''draft'', ''text''] \<rparr>] 1
          \<lparr> cond_isActive = True, cond_or = None, cond_owner = Some ''alice'',
            cond_tags = Some [''report'', ''draft''] \<rparr>,
        stateTagged)
   \<and> cond_tags (searchConditionsOf reqSearch) = Some (map trim [''report'', '' draft''])
   \<and> concat (map (\<lambda>p. p @ '','') (split CHR '','' ''report, draft'')) = ''report, draft,''"
proof -
  note T = searchFiles_requires_a_filter [where P = stubPrims and e = env0 and s = stateTagged]
  have "\<not> truthy (sq_query reqSearchEmpty) \<and> \<not> truthy (sq_owner reqSearchEmpty)
        \<and> \<not> truthy (sq_tags reqSearchEmpty)"
    by (simp add: reqSearchEmpty_def)
  with conjunct1 [OF T [where req = reqSearchEmpty]]
  have a: "fst (searchFiles stubPrims env0 reqSearchEmpty stateTagged) =
     Status400 ''At least one search parameter is required''"
    by simp
  have "(truthy (sq_query reqSearch) \<or> truthy (sq_owner reqSearch) \<or> truthy (sq_tags reqSearch))
      \<and> dbReadOk env0"
    by (simp add: reqSearch_def env0_def)
  with conjunct1 [OF conjunct2 [OF conjunct2 [OF T [where req = reqSearch]]]]
  have "searchFiles stubPrims env0 reqSearch stateTagged =
          (case runQuery stubPrims (searchConditionsOf reqSearch)
                  (jsTimes (jsMinus (pageOf reqSearch) (Number 1)) (limitOf reqSearch))
                  (limitOf reqSearch) (files stateTagged) of
             None \<Rightarrow> (Status500 ''Failed to search files'', stateTagged)
           | Some (found, totalCount) \<Rightarrow>
               (Status200_Search found totalCount (searchConditionsOf reqSearch), stateTagged))"
    by (rule mp)
  moreover have "runQuery stubPrims = stubQuery"
    by (simp add: stubPrims_def)
  ultimately have b: "searchFiles stubPrims env0 reqSearch stateTagged =
       (Status200_Search [file1\<lparr> tags := [''draft'', ''text''] \<rparr>] 1
          \<lparr> cond_isActive = True, cond_or = None, cond_owner = Some ''alice'',
            cond_tags = Some [''report'', ''draft''] \<rparr>,
        stateTagged)"
    unfolding pageOf_reqSearch limitOf_reqSearch searchConditionsOf_reqSearch
    by (simp add: stubQuery_tagged)
  have tags: "sq_tags reqSearch = Some ''report, draft''"
    by (simp add: reqSearch_def)
  have sp: "split CHR '','' ''report, draft'' = [''report'', '' draft'']"
    by simp
  from conjunct1 [OF conjunct2 [OF conjunct2 [OF conjunct2 [OF conjunct2 [OF conjunct2
        [OF conjunct2 [OF T [where req = reqSearch]]]]]]]]
  have c: "cond_tags (searchConditionsOf reqSearch) = Some (map trim [''report'', '' draft''])"
    unfolding tags sp by simp
  from conjunct2 [OF conjunct2 [OF conjunct2 [OF conjunct2 [OF conjunct2 [OF conjunct2
        [OF conjunct2 [OF T [where req = reqSearch]]]]]]]]
  have "concat (map (\<lambda>p. p @ '','') (split CHR '','' ''report, draft'')) = ''report, draft'' @ '',''"
    by blast
  then have d: "concat (map (\<lambda>p. p @ '','') (split CHR '','' ''report, draft'')) = ''report, draft,''"
    by simp
  from a b c d show ?thesis by simp
qed

section \<open>Latest version and version by number\<close>

text \<open>
  Claim C7. For a document whose versions are numbered \<open>1, ..., N\<close> in order, with
  \<open>N \<ge> 1\<close> (and below \<open>2^32\<close>, the most elements an array can have), \<open>getLatestVersion\<close>
  and \<open>getVersion\<close> for the number \<open>N\<close> return the same version, the one numbered \<open>N\<close>.
  For a document with no version both return nothing, and \<open>downloadFile\<close> answers 404
  for it, with or without a selector.
\<close>

theorem latest_is_highest_number:
  "(contiguous F \<and> versions F \<noteq> [] \<and> length (versions F) < 2 ^ 32 \<longrightarrow>
      getLatestVersion F = getVersion F (Number (int (length (versions F))))
      \<and> (\<exists>v. getLatestVersion F = Some v \<and> versionNumber v = int (length (versions F))))
   \<and> (versions F = [] \<longrightarrow> getLatestVersion F = None \<and> getVersion F n = None)
   \<and> (dbReadOk e \<and> findOne (\<lambda>d. fileId d = fid \<and> isActive d) (files s) = Some (i, F)
        \<and> versions F = [] \<longrightarrow>
        downloadFile P e \<lparr> vs_fileId = fid, vs_versionIndex = None \<rparr> s =
          (Status404 ''No versions available'', s)
        \<and> (sel \<noteq> [] \<longrightarrow>
             downloadFile P e \<lparr> vs_fileId = fid, vs_versionIndex = Some sel \<rparr> s =
               (Status404_Version (parseInt sel), s)))"
proof (intro conjI impI)
  assume a: "contiguous F \<and> versions F \<noteq> [] \<and> length (versions F) < 2 ^ 32"
  let ?n = "length (versions F)"
  from a have "int ?n < 2 ^ 32" by (metis of_nat_less_iff of_nat_numeral of_nat_power)
  then have small: "\<bar>int ?n\<bar> < 10 ^ 21" by simp
  from a have latest: "getLatestVersion F = Some (versions F ! (?n - 1))"
    by (simp add: getLatestVersion_def)
  from a contiguous_find_last [of F]
  have byNumber: "getVersion F (Number (int ?n)) = Some (versions F ! (?n - 1))"
    by (simp add: getVersion_Number [OF small])
  from latest byNumber show "getLatestVersion F = getVersion F (Number (int ?n))"
    by simp
  from a have "contiguous F" and "versions F \<noteq> []" by simp_all
  then have "versionNumber (versions F ! (?n - 1)) = int ?n"
    by (rule contiguous_last_number)
  with latest show "\<exists>v. getLatestVersion F = Some v \<and> versionNumber v = int ?n"
    by simp
next
  assume "versions F = []"
  then show "getLatestVersion F = None" by (simp add: getLatestVersion_def)
next
  assume "versions F = []"
  then show "getVersion F n = None" by (simp add: getVersion_def)
next
  assume a: "dbReadOk e \<and> findOne (\<lambda>d. fileId d = fid \<and> isActive d) (files s) = Some (i, F)
        \<and> versions F = []"
  then show "downloadFile P e \<lparr> vs_fileId = fid, vs_versionIndex = None \<rparr> s =
          (Status404 ''No versions available'', s)"
    by (simp add: downloadFile_def getLatestVersion_def)
next
  assume a: "dbReadOk e \<and> findOne (\<lambda>d. fileId d = fid \<and> isActive d) (files s) = Some (i, F)
        \<and> versions F = []"
    and "sel \<noteq> []"
  then show "downloadFile P e \<lparr> vs_fileId = fid, vs_versionIndex = Some sel \<rparr> s =
               (Status404_Version (parseInt sel), s)"
    by (simp add: downloadFile_def getVersion_def)
qed

theorem latest_is_highest_number_witness:
  "getLatestVersion file2 = getVersion file2 (Number 2)
   \<and> getLatestVersion file2 = Some version2
   \<and> getLatestVersion (file1\<lparr> versions := [] \<rparr>) = None
   \<and> getVersion (file1\<lparr> versions := [] \<rparr>) (Number 1) = None
   \<and> downloadFile stubPrims env0 \<lparr> vs_fileId = idHello, vs_versionIndex = None \<rparr> stateNoVersions =
        (Status404 ''No versions available'', stateNoVersions)
   \<and> downloadFile stubPrims env0 \<lparr> vs_fileId = idHello, vs_versionIndex = Some ''1'' \<rparr> stateNoVersions =
        (Status404_Version (Number 1), stateNoVersions)"
proof -
  have c: "contiguous file2 \<and> versions file2 \<noteq> [] \<and> length (versions file2) < 2 ^ 32"
    by (simp add: contiguous_def file2_def version1_def version2_def upt_rec)
  have len: "int (length (versions file2)) = 2"
    by (simp add: file2_def)
  from conjunct1 [OF latest_is_highest_number [of file2]] c
  have "getLatestVersion file2 = getVersion file2 (Number (int (length (versions file2))))
      \<and> (\<exists>v. getLatestVersion file2 = Some v \<and> versionNumber v = int (length (versions file2)))"
    by (rule mp)
  then have a: "getLatestVersion file2 = getVersion file2 (Number 2)"
    unfolding len by simp
  have a': "getLatestVersion file2 = Some version2"
    by (simp add: getLatestVersion_def file2_def)
  let ?E = "file1\<lparr> versions := [] \<rparr>"
  note T = latest_is_highest_number [of ?E "Number 1" env0 idHello stateNoVersions 0 stubPrims "''1''"]
  have "versions ?E = []" by simp
  with conjunct1 [OF conjunct2 [OF T]]
  have b: "getLatestVersion ?E = None \<and> getVersion ?E (Number 1) = None"
    by (rule mp)
  have "dbReadOk env0
      \<and> findOne (\<lambda>d. fileId d = idHello \<and> isActive d) (files stateNoVersions) = Some (0, ?E)
      \<and> versions ?E = []"
    by (simp add: env0_def stateNoVersions_def findOne_def file1_def)
  with conjunct2 [OF conjunct2 [OF T]]
  have "downloadFile stubPrims env0 \<lparr> vs_fileId = idHello, vs_versionIndex = None \<rparr> stateNoVersions =
          (Status404 ''No versions available'', stateNoVersions)
        \<and> (''1'' \<noteq> [] \<longrightarrow>
             downloadFile stubPrims env0 \<lparr> vs_fileId = idHello, vs_versionIndex = Some ''1'' \<rparr> stateNoVersions =
               (Status404_Version (parseInt ''1''), stateNoVersions))"
    by (rule mp)
  then have d: "downloadFile stubPrims env0 \<lparr> vs_fileId = idHello, vs_versionIndex = None \<rparr> stateNoVersions =
        (Status404 ''No versions available'', stateNoVersions)
   \<and> downloadFile stubPrims env0 \<lparr> vs_fileId = idHello, vs_versionIndex = Some ''1'' \<rparr> stateNoVersions =
        (Status404_Version (Number 1), stateNoVersions)"
    by (simp add: parseInt_one)
  from a a' b d show ?thesis by simp
qed

section \<open>Version selectors\<close>



end
